theory Spec2Isabelle
  imports Main "HOL-Library.AList"
begin

section \<open>Text\<close>

text \<open>
  A Python string is a sequence of code points. A \<^typ>\<open>char\<close> stands for one code point
  below 256, and the classifications below are Python's for exactly these code points
  (the Latin-1 range: beside the ASCII letters it holds the letters \<open>0xC0..0xFF\<close>).
\<close>

definition py_ord :: "char \<Rightarrow> int" where
  "py_ord c = of_char c"

definition py_chr :: "int \<Rightarrow> char" where
  "py_chr n = char_of n"

definition in_range :: "nat \<Rightarrow> nat \<Rightarrow> char \<Rightarrow> bool" where
  "in_range lo hi c = (lo \<le> of_char c \<and> of_char c \<le> hi)"

definition char_isspace :: "char \<Rightarrow> bool" where
  "char_isspace c =
     (in_range 9 13 c \<or> in_range 28 32 c \<or> of_char c = (133::nat) \<or> of_char c = (160::nat))"

definition char_isupper :: "char \<Rightarrow> bool" where
  "char_isupper c = (in_range 65 90 c \<or> in_range 192 214 c \<or> in_range 216 222 c)"

definition char_islower :: "char \<Rightarrow> bool" where
  "char_islower c =
     (in_range 97 122 c \<or> of_char c = (170::nat) \<or> of_char c = (181::nat)
      \<or> of_char c = (186::nat) \<or> in_range 223 246 c \<or> in_range 248 255 c)"

definition char_isalpha :: "char \<Rightarrow> bool" where
  "char_isalpha c = (char_isupper c \<or> char_islower c)"

definition is_digit :: "char \<Rightarrow> bool" where
  "is_digit c = in_range 48 57 c"

text \<open>The regular expression class \<open>[A-Z]\<close>.\<close>

definition is_AZ :: "char \<Rightarrow> bool" where
  "is_AZ c = in_range 65 90 c"

text \<open>
  The regular expression class \<open>\w\<close>, which decides the word boundary \<open>\b\<close>:
  alphabetic or numeric code points and the underscore.
\<close>

definition is_word :: "char \<Rightarrow> bool" where
  "is_word c =
     (char_isalpha c \<or> is_digit c \<or> of_char c = (95::nat) \<or> in_range 178 179 c
      \<or> of_char c = (185::nat) \<or> in_range 188 190 c)"

text \<open>\<open>str.isalpha\<close>: every character is alphabetic and there is at least one.\<close>

definition py_isalpha :: "string \<Rightarrow> bool" where
  "py_isalpha s = (s \<noteq> [] \<and> list_all char_isalpha s)"

text \<open>\<open>str.isupper\<close>: no cased character is lowercase and there is a cased character.\<close>

definition py_isupper :: "string \<Rightarrow> bool" where
  "py_isupper s = (\<not> list_ex char_islower s \<and> list_ex char_isupper s)"

text \<open>
  \<open>str.upper\<close>. The sharp s becomes \<open>SS\<close>. The upper-case forms of the micro sign
  (181) and of y with diaeresis (255) lie beyond code point 255; these two characters are
  left as they are (they and their upper-case forms are neither letters \<open>A-Z\<close>, digits
  nor whitespace).
\<close>

definition char_upper :: "char \<Rightarrow> string" where
  "char_upper c =
     (if in_range 97 122 c \<or> in_range 224 246 c \<or> in_range 248 254 c
      then [char_of (of_char c - (32::nat))]
      else if of_char c = (223::nat) then ''SS'' else [c])"

definition py_upper :: "string \<Rightarrow> string" where
  "py_upper s = concat (map char_upper s)"

definition char_lower :: "char \<Rightarrow> char" where
  "char_lower c = (if char_isupper c then char_of (of_char c + (32::nat)) else c)"

definition py_lower :: "string \<Rightarrow> string" where
  "py_lower s = map char_lower s"

definition py_strip :: "string \<Rightarrow> string" where
  "py_strip s = rev (dropWhile char_isspace (rev (dropWhile char_isspace s)))"

text \<open>\<open>str.startswith\<close> and the substring test \<open>sub in s\<close>.\<close>

fun startswith :: "string \<Rightarrow> string \<Rightarrow> bool" where
  "startswith s [] = True"
| "startswith [] (p # ps) = False"
| "startswith (c # cs) (p # ps) = (c = p \<and> startswith cs ps)"

fun py_in :: "string \<Rightarrow> string \<Rightarrow> bool" where
  "py_in sub [] = (sub = [])"
| "py_in sub (c # cs) = (startswith (c # cs) sub \<or> py_in sub cs)"

subsection \<open>Integers and their decimal form\<close>

definition digit_char :: "nat \<Rightarrow> char" where
  "digit_char d = char_of (48 + d)"

fun digits10 :: "nat \<Rightarrow> string" where
  "digits10 n = (if n < 10 then [digit_char n] else digits10 (n div 10) @ [digit_char (n mod 10)])"

declare digits10.simps [simp del]

text \<open>\<open>str(n)\<close> for an integer.\<close>

definition py_str :: "int \<Rightarrow> string" where
  "py_str i = (if i < 0 then CHR ''-'' # digits10 (nat (- i)) else digits10 (nat i))"

text \<open>\<open>int(s)\<close> for a string of decimal digits, as the patterns \<open>\d+\<close> deliver it.\<close>

definition int_of_digits :: "string \<Rightarrow> int" where
  "int_of_digits s = foldl (\<lambda>a c. 10 * a + (py_ord c - 48)) 0 s"

text \<open>
  \<open>int(s)\<close> for any string: surrounding whitespace, an optional sign, then digits, where
  single underscores may stand between digits. \<open>None\<close> is Python's \<open>ValueError\<close>.
\<close>

fun int_body :: "string \<Rightarrow> bool" where
  "int_body [] = False"
| "int_body [c] = is_digit c"
| "int_body (c # d # cs) =
     (is_digit c \<and> (if d = CHR ''_'' then int_body cs else int_body (d # cs)))"

definition py_int :: "string \<Rightarrow> int option" where
  "py_int s =
     (case py_strip s of
        [] \<Rightarrow> None
      | c # cs \<Rightarrow>
          (let body = (if c = CHR ''-'' \<or> c = CHR ''+'' then cs else c # cs) in
           if int_body body
           then Some ((if c = CHR ''-'' then - 1 else 1)
                       * int_of_digits (filter (\<lambda>x. x \<noteq> CHR ''_'') body))
           else None))"

section \<open>Exceptions\<close>

text \<open>
  The domain exceptions of \<open>domain/exceptions.py\<close> and the built-in exceptions the code
  raises or lets through. Each carries its message (\<open>str(e)\<close>); the source's messages are
  Ukrainian and are given here in English, with the same interpolated values.
  \<open>PyError\<close> is any other built-in exception (\<open>OverflowError\<close>, \<open>TypeError\<close>) that arithmetic on
  non-integer values raises.
\<close>

datatype error =
    ExpressionSyntaxError string int
  | CircularReferenceError string
  | CellReferenceError string
  | EvaluationError string
  | ValueError string
  | IndexError string
  | Exception string
  | RecursionError string
  | PyError string

fun message :: "error \<Rightarrow> string" where
  "message (ExpressionSyntaxError m p) = m"
| "message (CircularReferenceError m) = m"
| "message (CellReferenceError m) = m"
| "message (EvaluationError m) = m"
| "message (ValueError m) = m"
| "message (IndexError m) = m"
| "message (Exception m) = m"
| "message (RecursionError m) = m"
| "message (PyError m) = m"

fun is_DomainException :: "error \<Rightarrow> bool" where
  "is_DomainException (ExpressionSyntaxError m p) = True"
| "is_DomainException (CircularReferenceError m) = True"
| "is_DomainException (CellReferenceError m) = True"
| "is_DomainException (EvaluationError m) = True"
| "is_DomainException e = False"

section \<open>CellReference\<close>

record cell_reference =
  column :: string
  row :: int

text \<open>\<open>__post_init__\<close>: the validation every construction runs.\<close>

definition post_init :: "cell_reference \<Rightarrow> error + cell_reference" where
  "post_init r =
     (if column r = [] \<or> \<not> py_isalpha (column r) \<or> \<not> py_isupper (column r)
      then Inl (ValueError (''Invalid column name: '' @ column r))
      else if row r < 1
      then Inl (ValueError (''Row number must be >= 1: '' @ py_str (row r)))
      else Inr r)"

text \<open>
  \<open>PATTERN = ^([A-Z]+)(\d+)$\<close>, matched against a stripped string (which has no final
  newline for \<open>$\<close> to skip): the two groups, if the string matches.
\<close>

definition PATTERN_match :: "string \<Rightarrow> (string \<times> string) option" where
  "PATTERN_match s =
     (let letters = takeWhile is_AZ s; rest = dropWhile is_AZ s in
      if letters \<noteq> [] \<and> rest \<noteq> [] \<and> list_all is_digit rest
      then Some (letters, rest) else None)"

definition from_string :: "string \<Rightarrow> error + cell_reference" where
  "from_string ref =
     (case PATTERN_match (py_upper (py_strip ref)) of
        None \<Rightarrow> Inl (ValueError (''Invalid cell reference format: '' @ ref))
      | Some (col, digits) \<Rightarrow> post_init \<lparr>column = col, row = int_of_digits digits\<rparr>)"

definition to_string :: "cell_reference \<Rightarrow> string" where
  "to_string r = column r @ py_str (row r)"

definition column_to_index :: "string \<Rightarrow> int" where
  "column_to_index col =
     foldl (\<lambda>index c. index * 26 + (py_ord c - py_ord CHR ''A'' + 1)) 0 col - 1"

definition to_indices :: "cell_reference \<Rightarrow> int \<times> int" where
  "to_indices r = (row r - 1, column_to_index (column r))"

text \<open>The loop of \<open>_index_to_column\<close>, on the already incremented index.\<close>

function index_to_column_loop :: "int \<Rightarrow> string \<Rightarrow> string" where
  "index_to_column_loop index col =
     (if index > 0
      then index_to_column_loop ((index - 1) div 26)
             (py_chr (py_ord CHR ''A'' + (index - 1) mod 26) # col)
      else col)"
  by pat_completeness auto
termination
  by (relation "measure (\<lambda>(index, col). nat index)") auto

declare index_to_column_loop.simps [simp del]

definition index_to_column :: "int \<Rightarrow> string" where
  "index_to_column index = index_to_column_loop (index + 1) []"

definition from_indices :: "int \<Rightarrow> int \<Rightarrow> error + cell_reference" where
  "from_indices row_index col_index =
     post_init \<lparr>column = index_to_column col_index, row = row_index + 1\<rparr>"

section \<open>Expression trees\<close>

datatype ast =
    NumberNode int
  | CellRefNode cell_reference
  | UnaryOpNode string ast
  | BinaryOpNode string ast ast

section \<open>Values\<close>

subsection \<open>Floats\<close>

text \<open>
  A finite \<open>float\<close> is a sign, a significand and an exponent: the number
  \<open>significand * 2 ^ exponent\<close>, negated where \<open>negative\<close> holds. Either the significand is
  at least \<open>2 ^ 52\<close> and less than \<open>2 ^ 53\<close>, or the exponent is \<open>- 1074\<close> and the significand
  is less than \<open>2 ^ 52\<close>; the largest exponent is 971.
\<close>

datatype double = Double (negative: bool) (significand: int) (exponent: int)

text \<open>
  The float nearest to the quotient of \<open>p \<ge> 0\<close> by \<open>q > 0\<close>, with no bound on the exponent
  from above. The loop finds the exponent: it doubles the denominator of
  \<open>p * 2 ^ 1074 / q\<close> until the quotient is less than \<open>2 ^ 53\<close>. The quotient is then
  rounded to an integer, a tie to the even one.
\<close>

function scale :: "int \<Rightarrow> int \<Rightarrow> int \<Rightarrow> int \<times> int" where
  "scale num den e =
     (if den \<le> 0 \<or> num < den * 2 ^ 53 then (den, e) else scale num (2 * den) (e + 1))"
  by pat_completeness auto
termination
  by (relation "measure (\<lambda>(num, den, e). nat (num - den))") auto

declare scale.simps [simp del]

definition round_half_even :: "int \<Rightarrow> int \<Rightarrow> int" where
  "round_half_even num den =
     (let m = num div den; r = num mod den in
      if den < 2 * r \<or> (2 * r = den \<and> odd m) then m + 1 else m)"

definition nearest :: "int \<Rightarrow> int \<Rightarrow> int \<times> int" where
  "nearest p q =
     (case scale (p * 2 ^ 1074) q (- 1074) of
        (den, e) \<Rightarrow>
          let m = round_half_even (p * 2 ^ 1074) den in
          if m = 2 ^ 53 then (2 ^ 52, e + 1) else (m, e))"

text \<open>
  \<open>a / b\<close> for integers: the float nearest to the quotient, \<open>OverflowError\<close> where that is
  beyond the largest float. The sign is that of the quotient, and that of \<open>b\<close> where \<open>a\<close> is 0.
\<close>

definition true_divide :: "int \<Rightarrow> int \<Rightarrow> string + double" where
  "true_divide a b =
     (if b = 0 then Inl ''division by zero''
      else case nearest \<bar>a\<bar> \<bar>b\<bar> of
        (m, e) \<Rightarrow>
          if 971 < e then Inl ''integer division result too large for a float''
          else Inr (Double ((a < 0) \<noteq> (b < 0)) m e))"

text \<open>
  \<open>round(x, ndigits)\<close> for a float and \<open>ndigits \<ge> 0\<close>: \<open>x\<close> is rounded to the decimal with
  \<open>ndigits\<close> digits after the point, a tie to the even digit, and the result is the float
  nearest to that decimal.
\<close>

definition py_round :: "double \<Rightarrow> nat \<Rightarrow> string + double" where
  "py_round x ndigits =
     (let k = round_half_even (significand x * 10 ^ ndigits * 2 ^ nat (exponent x))
                (2 ^ nat (- exponent x)) in
      case nearest k (10 ^ ndigits) of
        (m, e) \<Rightarrow>
          if 971 < e then Inl ''rounded value too large to represent''
          else Inr (Double (negative x) m e))"

subsection \<open>The values of expressions\<close>

text \<open>
  A value is a Python integer or, once a division has been evaluated, a \<open>float\<close>. The type
  \<open>'f\<close> stands for the floats the program holds, and \<open>f_float\<close> for the float a division of
  integers has computed. The rest of the arithmetic of floats is a parameter of the model:
  a \<open>float_ops\<close> gives the result of each operation in which a float takes part, or the
  message of the built-in exception it raises.
\<close>

datatype 'f pyval = VInt int | VFloat 'f

record 'f float_ops =
  f_float :: "double \<Rightarrow> 'f"
  f_is_zero :: "'f \<Rightarrow> bool"
  f_str :: "'f \<Rightarrow> string"
  f_neg :: "'f \<Rightarrow> 'f pyval"
  f_arith :: "string \<Rightarrow> 'f pyval \<Rightarrow> 'f pyval \<Rightarrow> string + 'f pyval"
  f_div_round :: "'f pyval \<Rightarrow> 'f pyval \<Rightarrow> string + 'f pyval"
  f_eq :: "'f pyval \<Rightarrow> 'f pyval \<Rightarrow> bool"
  f_lt :: "'f pyval \<Rightarrow> 'f pyval \<Rightarrow> string + bool"
  f_gt :: "'f pyval \<Rightarrow> 'f pyval \<Rightarrow> string + bool"

text \<open>\<open>v == 0\<close> and \<open>str(v)\<close>.\<close>

fun is_zero :: "'f float_ops \<Rightarrow> 'f pyval \<Rightarrow> bool" where
  "is_zero fo (VInt i) = (i = 0)"
| "is_zero fo (VFloat x) = f_is_zero fo x"

fun str_value :: "'f float_ops \<Rightarrow> 'f pyval \<Rightarrow> string" where
  "str_value fo (VInt i) = py_str i"
| "str_value fo (VFloat x) = f_str fo x"

section \<open>Cell\<close>

record 'f cell =
  expression :: string
  ast :: "ast option"
  cached_value :: "'f pyval option"
  error :: "string option"
  is_dirty :: bool

definition Cell :: "string \<Rightarrow> 'f cell" where
  "Cell e = \<lparr>expression = e, ast = None, cached_value = None, error = None, is_dirty = True\<rparr>"

definition invalidate :: "'f cell \<Rightarrow> 'f cell" where
  "invalidate c = c\<lparr>ast := None, cached_value := None, error := None, is_dirty := True\<rparr>"

definition invalidate_value :: "'f cell \<Rightarrow> 'f cell" where
  "invalidate_value c = c\<lparr>cached_value := None, error := None, is_dirty := True\<rparr>"

text \<open>The property setters.\<close>

definition set_expression :: "string \<Rightarrow> 'f cell \<Rightarrow> 'f cell" where
  "set_expression v c = (if expression c \<noteq> v then invalidate (c\<lparr>expression := v\<rparr>) else c)"

definition set_ast :: "ast option \<Rightarrow> 'f cell \<Rightarrow> 'f cell" where
  "set_ast v c = c\<lparr>ast := v\<rparr>"

definition set_cached_value :: "'f pyval option \<Rightarrow> 'f cell \<Rightarrow> 'f cell" where
  "set_cached_value v c = c\<lparr>cached_value := v, is_dirty := False\<rparr>"

definition set_error :: "string option \<Rightarrow> 'f cell \<Rightarrow> 'f cell" where
  "set_error v c = c\<lparr>error := v\<rparr>"

definition is_empty :: "'f cell \<Rightarrow> bool" where
  "is_empty c = (py_strip (expression c) = [])"

definition has_error :: "'f cell \<Rightarrow> bool" where
  "has_error c = (error c \<noteq> None)"

definition is_formula :: "'f cell \<Rightarrow> bool" where
  "is_formula c = startswith (py_strip (expression c)) ''=''"

definition get_formula_expression :: "'f cell \<Rightarrow> string" where
  "get_formula_expression c =
     (if is_formula c then py_strip (drop 1 (py_strip (expression c))) else [])"

definition is_literal :: "'f cell \<Rightarrow> bool" where
  "is_literal c = (\<not> is_empty c \<and> \<not> is_formula c)"

definition logical_operators :: "string list" where
  "logical_operators = [''and'', ''or'', ''not'', ''='', ''<'', ''>'']"

definition is_boolean_expression :: "'f cell \<Rightarrow> bool" where
  "is_boolean_expression c =
     (if \<not> is_formula c then False
      else let formula = py_lower (get_formula_expression c)
           in list_ex (\<lambda>op. py_in op formula) logical_operators)"

definition get_display_value :: "'f float_ops \<Rightarrow> 'f cell \<Rightarrow> string" where
  "get_display_value fo c =
     (if has_error c then ''ERROR''
      else if is_literal c then py_strip (expression c)
      else case cached_value c of
             Some v \<Rightarrow>
               if is_boolean_expression c
               then (if \<not> is_zero fo v then ''TRUE'' else ''FALSE'')
               else str_value fo v
           | None \<Rightarrow> if is_empty c then [] else ''?'')"

section \<open>Lexer\<close>

datatype token_type =
    TOKEN_NUMBER | TOKEN_CELL_REF | TOKEN_PLUS | TOKEN_MINUS | TOKEN_MULTIPLY | TOKEN_DIVIDE
  | TOKEN_POWER | TOKEN_EQUAL | TOKEN_LESS | TOKEN_GREATER | TOKEN_NOT | TOKEN_AND | TOKEN_OR
  | TOKEN_LPAREN | TOKEN_RPAREN | TOKEN_EOF

fun type_name :: "token_type \<Rightarrow> string" where
  "type_name TOKEN_NUMBER = ''NUMBER''"
| "type_name TOKEN_CELL_REF = ''CELL_REF''"
| "type_name TOKEN_PLUS = ''PLUS''"
| "type_name TOKEN_MINUS = ''MINUS''"
| "type_name TOKEN_MULTIPLY = ''MULTIPLY''"
| "type_name TOKEN_DIVIDE = ''DIVIDE''"
| "type_name TOKEN_POWER = ''POWER''"
| "type_name TOKEN_EQUAL = ''EQUAL''"
| "type_name TOKEN_LESS = ''LESS''"
| "type_name TOKEN_GREATER = ''GREATER''"
| "type_name TOKEN_NOT = ''NOT''"
| "type_name TOKEN_AND = ''AND''"
| "type_name TOKEN_OR = ''OR''"
| "type_name TOKEN_LPAREN = ''LPAREN''"
| "type_name TOKEN_RPAREN = ''RPAREN''"
| "type_name TOKEN_EOF = ''EOF''"

record token =
  tok_type :: token_type
  tok_value :: string
  tok_position :: nat

definition Token :: "token_type \<Rightarrow> string \<Rightarrow> nat \<Rightarrow> token" where
  "Token ty v p = \<lparr>tok_type = ty, tok_value = v, tok_position = p\<rparr>"

text \<open>
  \<open>regex.match(expression, position)\<close> for each pattern of \<open>TOKEN_PATTERNS\<close>: \<open>rest\<close> is the
  expression from the position on and \<open>prev\<close> the character before the position, which the
  word boundary \<open>\b\<close> of the keyword patterns looks at. The result is \<open>match.group(0)\<close>.
\<close>

fun is_word_opt :: "char option \<Rightarrow> bool" where
  "is_word_opt None = False"
| "is_word_opt (Some c) = is_word c"

fun head_opt :: "string \<Rightarrow> char option" where
  "head_opt [] = None"
| "head_opt (c # cs) = Some c"

definition word_boundary :: "char option \<Rightarrow> char option \<Rightarrow> bool" where
  "word_boundary a b = (is_word_opt a \<noteq> is_word_opt b)"

definition literal :: "string \<Rightarrow> string \<Rightarrow> string option" where
  "literal p rest = (if startswith rest p then Some p else None)"

definition keyword :: "string \<Rightarrow> char option \<Rightarrow> string \<Rightarrow> string option" where
  "keyword w prev rest =
     (if word_boundary prev (head_opt rest) \<and> startswith rest w
         \<and> word_boundary (head_opt (rev w)) (head_opt (drop (length w) rest))
      then Some w else None)"

fun match_pattern :: "token_type \<Rightarrow> char option \<Rightarrow> string \<Rightarrow> string option" where
  "match_pattern TOKEN_NUMBER prev rest =
     (let d = takeWhile is_digit rest in if d \<noteq> [] then Some d else None)"
| "match_pattern TOKEN_CELL_REF prev rest =
     (let l = takeWhile is_AZ rest; d = takeWhile is_digit (dropWhile is_AZ rest)
      in if l \<noteq> [] \<and> d \<noteq> [] then Some (l @ d) else None)"
| "match_pattern TOKEN_POWER prev rest = literal ''^'' rest"
| "match_pattern TOKEN_EQUAL prev rest = literal ''='' rest"
| "match_pattern TOKEN_LESS prev rest = literal ''<'' rest"
| "match_pattern TOKEN_GREATER prev rest = literal ''>'' rest"
| "match_pattern TOKEN_PLUS prev rest = literal ''+'' rest"
| "match_pattern TOKEN_MINUS prev rest = literal ''-'' rest"
| "match_pattern TOKEN_MULTIPLY prev rest = literal ''*'' rest"
| "match_pattern TOKEN_DIVIDE prev rest = literal ''/'' rest"
| "match_pattern TOKEN_NOT prev rest = keyword ''not'' prev rest"
| "match_pattern TOKEN_AND prev rest = keyword ''and'' prev rest"
| "match_pattern TOKEN_OR prev rest = keyword ''or'' prev rest"
| "match_pattern TOKEN_LPAREN prev rest = literal ''('' rest"
| "match_pattern TOKEN_RPAREN prev rest = literal '')'' rest"
| "match_pattern TOKEN_EOF prev rest = None"

definition TOKEN_PATTERNS :: "token_type list" where
  "TOKEN_PATTERNS =
     [TOKEN_NUMBER, TOKEN_CELL_REF, TOKEN_POWER, TOKEN_EQUAL, TOKEN_LESS, TOKEN_GREATER,
      TOKEN_PLUS, TOKEN_MINUS, TOKEN_MULTIPLY, TOKEN_DIVIDE, TOKEN_NOT, TOKEN_AND, TOKEN_OR,
      TOKEN_LPAREN, TOKEN_RPAREN]"

text \<open>The inner \<open>for\<close> loop of \<open>_tokenize\<close>: the first pattern of the list that matches.\<close>

fun first_match :: "token_type list \<Rightarrow> char option \<Rightarrow> string \<Rightarrow> (token_type \<times> string) option" where
  "first_match [] prev rest = None"
| "first_match (t # ts) prev rest =
     (case match_pattern t prev rest of
        Some v \<Rightarrow> Some (t, v)
      | None \<Rightarrow> first_match ts prev rest)"

lemma match_pattern_nonempty: "match_pattern t prev rest = Some v \<Longrightarrow> v \<noteq> []"
  by (cases t) (auto simp: literal_def keyword_def Let_def split: if_splits)

lemma first_match_nonempty: "first_match ts prev rest = Some (t, v) \<Longrightarrow> v \<noteq> []"
  by (induction ts) (auto split: option.splits dest: match_pattern_nonempty)

text \<open>The \<open>while\<close> loop of \<open>_tokenize\<close>.\<close>

function tokenize_loop :: "string \<Rightarrow> nat \<Rightarrow> token list \<Rightarrow> error + token list" where
  "tokenize_loop expr position tokens =
     (if position < length expr then
        if char_isspace (expr ! position) then tokenize_loop expr (position + 1) tokens
        else
          case first_match TOKEN_PATTERNS
                 (if position = 0 then None else Some (expr ! (position - 1)))
                 (drop position expr) of
            Some (ty, v) \<Rightarrow>
              tokenize_loop expr (position + length v) (tokens @ [Token ty v position])
          | None \<Rightarrow>
              Inl (ExpressionSyntaxError
                     (''Unknown character: '' @ [CHR 0x27, expr ! position, CHR 0x27])
                     (int position))
      else Inr (tokens @ [Token TOKEN_EOF [] position]))"
  by pat_completeness auto
termination
proof (relation "measure (\<lambda>(expr, position, tokens). length expr - position)")
  show "wf (measure (\<lambda>(expr, position, tokens). length expr - position))"
    by simp
next
  fix expr :: string and position :: nat and tokens :: "token list"
  assume "position < length expr"
  then show "((expr, position + 1, tokens), expr, position, tokens)
             \<in> measure (\<lambda>(expr, position, tokens). length expr - position)"
    by simp
next
  fix expr :: string and position :: nat and tokens :: "token list"
    and x2 :: "token_type \<times> string" and ty :: token_type and v :: string
  assume lt: "position < length expr"
    and m: "first_match TOKEN_PATTERNS
              (if position = 0 then None else Some (expr ! (position - 1)))
              (drop position expr) = Some x2"
    and x2: "(ty, v) = x2"
  from m x2 have "v \<noteq> []" by (auto dest: first_match_nonempty)
  with lt show "((expr, position + length v, tokens @ [Token ty v position]), expr, position, tokens)
             \<in> measure (\<lambda>(expr, position, tokens). length expr - position)"
    by (cases v) auto
qed

declare tokenize_loop.simps [simp del]

definition tokenize :: "string \<Rightarrow> error + token list" where
  "tokenize expr = tokenize_loop expr 0 []"

section \<open>Parser\<close>

text \<open>
  The parser's state is the token list and \<open>current_pos\<close>. Each parsing method takes the
  position and returns the tree with the new position, or the \<open>ExpressionSyntaxError\<close> it
  raises.

  The methods call each other; here they are the cases of one function \<open>parser\<close>, selected
  by a \<open>rule\<close>. The \<open>while\<close> loops are rules of their own that carry the tree built so far.
  The first argument bounds the recursion: it goes down by one whenever a token is
  consumed before a recursive call, and \<open>parse\<close> starts it at the number of tokens. Where it
  runs out the result is the error that \<open>parse\<close> makes of Python's \<open>RecursionError\<close>.
\<close>

definition current_token :: "token list \<Rightarrow> nat \<Rightarrow> token" where
  "current_token tokens pos = (if pos < length tokens then tokens ! pos else last tokens)"

definition consume :: "token list \<Rightarrow> nat \<Rightarrow> token_type option \<Rightarrow> error + token \<times> nat" where
  "consume tokens pos expected_type =
     (let token = current_token tokens pos in
      case expected_type of
        None \<Rightarrow> Inr (token, pos + 1)
      | Some ty \<Rightarrow>
          if tok_type token \<noteq> ty
          then Inl (ExpressionSyntaxError
                      (''Expected '' @ type_name ty @ '', found '' @ type_name (tok_type token))
                      (int (tok_position token)))
          else Inr (token, pos + 1))"

definition depth_exceeded :: "token list \<Rightarrow> nat \<Rightarrow> error + ast \<times> nat" where
  "depth_exceeded tokens pos =
     Inl (ExpressionSyntaxError ''maximum recursion depth exceeded''
            (int (tok_position (current_token tokens pos))))"

datatype rule =
    Expression
  | LogicalOr | LogicalOrLoop ast
  | LogicalAnd | LogicalAndLoop ast
  | Comparison
  | Additive | AdditiveLoop ast
  | Multiplicative | MultiplicativeLoop ast
  | Power
  | Unary
  | Primary

fun rank :: "rule \<Rightarrow> nat" where
  "rank Expression = 12"
| "rank LogicalOr = 11"
| "rank (LogicalOrLoop left) = 10"
| "rank LogicalAnd = 9"
| "rank (LogicalAndLoop left) = 8"
| "rank Comparison = 7"
| "rank Additive = 6"
| "rank (AdditiveLoop left) = 5"
| "rank Multiplicative = 4"
| "rank (MultiplicativeLoop left) = 3"
| "rank Power = 2"
| "rank Unary = 1"
| "rank Primary = 0"

function parser :: "nat \<Rightarrow> token list \<Rightarrow> rule \<Rightarrow> nat \<Rightarrow> error + ast \<times> nat" where
  "parser n tokens Expression pos = parser n tokens LogicalOr pos"
| "parser n tokens LogicalOr pos =
     (case parser n tokens LogicalAnd pos of
        Inl e \<Rightarrow> Inl e
      | Inr (left, pos') \<Rightarrow> parser n tokens (LogicalOrLoop left) pos')"
| "parser n tokens (LogicalOrLoop left) pos =
     (if tok_type (current_token tokens pos) = TOKEN_OR then
        case n of
          0 \<Rightarrow> depth_exceeded tokens pos
        | Suc m \<Rightarrow>
            (case parser m tokens LogicalAnd (pos + 1) of
               Inl e \<Rightarrow> Inl e
             | Inr (right, pos') \<Rightarrow>
                 parser m tokens (LogicalOrLoop (BinaryOpNode ''or'' left right)) pos')
      else Inr (left, pos))"
| "parser n tokens LogicalAnd pos =
     (case parser n tokens Comparison pos of
        Inl e \<Rightarrow> Inl e
      | Inr (left, pos') \<Rightarrow> parser n tokens (LogicalAndLoop left) pos')"
| "parser n tokens (LogicalAndLoop left) pos =
     (if tok_type (current_token tokens pos) = TOKEN_AND then
        case n of
          0 \<Rightarrow> depth_exceeded tokens pos
        | Suc m \<Rightarrow>
            (case parser m tokens Comparison (pos + 1) of
               Inl e \<Rightarrow> Inl e
             | Inr (right, pos') \<Rightarrow>
                 parser m tokens (LogicalAndLoop (BinaryOpNode ''and'' left right)) pos')
      else Inr (left, pos))"
| "parser n tokens Comparison pos =
     (case parser n tokens Additive pos of
        Inl e \<Rightarrow> Inl e
      | Inr (left, pos') \<Rightarrow>
          if tok_type (current_token tokens pos') \<in> {TOKEN_EQUAL, TOKEN_LESS, TOKEN_GREATER} then
            case n of
              0 \<Rightarrow> depth_exceeded tokens pos'
            | Suc m \<Rightarrow>
                (case parser m tokens Additive (pos' + 1) of
                   Inl e \<Rightarrow> Inl e
                 | Inr (right, pos'') \<Rightarrow>
                     Inr (BinaryOpNode (tok_value (current_token tokens pos')) left right, pos''))
          else Inr (left, pos'))"
| "parser n tokens Additive pos =
     (case parser n tokens Multiplicative pos of
        Inl e \<Rightarrow> Inl e
      | Inr (left, pos') \<Rightarrow> parser n tokens (AdditiveLoop left) pos')"
| "parser n tokens (AdditiveLoop left) pos =
     (if tok_type (current_token tokens pos) \<in> {TOKEN_PLUS, TOKEN_MINUS} then
        case n of
          0 \<Rightarrow> depth_exceeded tokens pos
        | Suc m \<Rightarrow>
            (case parser m tokens Multiplicative (pos + 1) of
               Inl e \<Rightarrow> Inl e
             | Inr (right, pos') \<Rightarrow>
                 parser m tokens
                   (AdditiveLoop
                      (BinaryOpNode
                         (if tok_type (current_token tokens pos) = TOKEN_PLUS then ''+'' else ''-'')
                         left right)) pos')
      else Inr (left, pos))"
| "parser n tokens Multiplicative pos =
     (case parser n tokens Power pos of
        Inl e \<Rightarrow> Inl e
      | Inr (left, pos') \<Rightarrow> parser n tokens (MultiplicativeLoop left) pos')"
| "parser n tokens (MultiplicativeLoop left) pos =
     (if tok_type (current_token tokens pos) \<in> {TOKEN_MULTIPLY, TOKEN_DIVIDE} then
        case n of
          0 \<Rightarrow> depth_exceeded tokens pos
        | Suc m \<Rightarrow>
            (case parser m tokens Power (pos + 1) of
               Inl e \<Rightarrow> Inl e
             | Inr (right, pos') \<Rightarrow>
                 parser m tokens
                   (MultiplicativeLoop
                      (BinaryOpNode
                         (if tok_type (current_token tokens pos) = TOKEN_MULTIPLY
                          then ''*'' else ''/'')
                         left right)) pos')
      else Inr (left, pos))"
| "parser n tokens Power pos =
     (case parser n tokens Unary pos of
        Inl e \<Rightarrow> Inl e
      | Inr (left, pos') \<Rightarrow>
          if tok_type (current_token tokens pos') = TOKEN_POWER then
            case n of
              0 \<Rightarrow> depth_exceeded tokens pos'
            | Suc m \<Rightarrow>
                (case parser m tokens Power (pos' + 1) of
                   Inl e \<Rightarrow> Inl e
                 | Inr (right, pos'') \<Rightarrow> Inr (BinaryOpNode ''^'' left right, pos''))
          else Inr (left, pos'))"
| "parser n tokens Unary pos =
     (if tok_type (current_token tokens pos) \<in> {TOKEN_PLUS, TOKEN_MINUS, TOKEN_NOT} then
        case n of
          0 \<Rightarrow> depth_exceeded tokens pos
        | Suc m \<Rightarrow>
            (case parser m tokens Unary (pos + 1) of
               Inl e \<Rightarrow> Inl e
             | Inr (operand, pos') \<Rightarrow>
                 Inr (UnaryOpNode
                        (if tok_type (current_token tokens pos) = TOKEN_PLUS then ''+''
                         else if tok_type (current_token tokens pos) = TOKEN_MINUS then ''-''
                         else ''not'')
                        operand, pos'))
      else parser n tokens Primary pos)"
| "parser n tokens Primary pos =
     (if tok_type (current_token tokens pos) = TOKEN_NUMBER then
        Inr (NumberNode (int_of_digits (tok_value (current_token tokens pos))), pos + 1)
      else if tok_type (current_token tokens pos) = TOKEN_CELL_REF then
        (case from_string (tok_value (current_token tokens pos)) of
           Inr ref \<Rightarrow> Inr (CellRefNode ref, pos + 1)
         | Inl e \<Rightarrow>
             Inl (ExpressionSyntaxError (message e)
                    (int (tok_position (current_token tokens pos)))))
      else if tok_type (current_token tokens pos) = TOKEN_LPAREN then
        case n of
          0 \<Rightarrow> depth_exceeded tokens pos
        | Suc m \<Rightarrow>
            (case parser m tokens Expression (pos + 1) of
               Inl e \<Rightarrow> Inl e
             | Inr (expr, pos') \<Rightarrow>
                 (case consume tokens pos' (Some TOKEN_RPAREN) of
                    Inl e \<Rightarrow> Inl e
                  | Inr (t, pos'') \<Rightarrow> Inr (expr, pos'')))
      else Inl (ExpressionSyntaxError
                  (''Expected a number, a cell reference or (, found: ''
                   @ tok_value (current_token tokens pos))
                  (int (tok_position (current_token tokens pos)))))"
  by pat_completeness auto
termination
  by (relation "measures [\<lambda>(n, tokens, r, pos). n, \<lambda>(n, tokens, r, pos). rank r]") auto

declare parser.simps [simp del]

text \<open>The parsing methods under their names in the source.\<close>

definition parse_expression :: "nat \<Rightarrow> token list \<Rightarrow> nat \<Rightarrow> error + ast \<times> nat" where
  "parse_expression n tokens pos = parser n tokens Expression pos"

definition parse_logical_or :: "nat \<Rightarrow> token list \<Rightarrow> nat \<Rightarrow> error + ast \<times> nat" where
  "parse_logical_or n tokens pos = parser n tokens LogicalOr pos"

definition parse_logical_and :: "nat \<Rightarrow> token list \<Rightarrow> nat \<Rightarrow> error + ast \<times> nat" where
  "parse_logical_and n tokens pos = parser n tokens LogicalAnd pos"

definition parse_comparison :: "nat \<Rightarrow> token list \<Rightarrow> nat \<Rightarrow> error + ast \<times> nat" where
  "parse_comparison n tokens pos = parser n tokens Comparison pos"

definition parse_additive :: "nat \<Rightarrow> token list \<Rightarrow> nat \<Rightarrow> error + ast \<times> nat" where
  "parse_additive n tokens pos = parser n tokens Additive pos"

definition parse_multiplicative :: "nat \<Rightarrow> token list \<Rightarrow> nat \<Rightarrow> error + ast \<times> nat" where
  "parse_multiplicative n tokens pos = parser n tokens Multiplicative pos"

definition parse_power :: "nat \<Rightarrow> token list \<Rightarrow> nat \<Rightarrow> error + ast \<times> nat" where
  "parse_power n tokens pos = parser n tokens Power pos"

definition parse_unary :: "nat \<Rightarrow> token list \<Rightarrow> nat \<Rightarrow> error + ast \<times> nat" where
  "parse_unary n tokens pos = parser n tokens Unary pos"

definition parse_primary :: "nat \<Rightarrow> token list \<Rightarrow> nat \<Rightarrow> error + ast \<times> nat" where
  "parse_primary n tokens pos = parser n tokens Primary pos"

definition parse :: "string \<Rightarrow> error + ast" where
  "parse expression_text =
     (let expr = py_strip expression_text in
      if expr = [] then Inl (ExpressionSyntaxError ''Empty expression'' 0)
      else
        case tokenize expr of
          Inl e \<Rightarrow> Inl e
        | Inr tokens \<Rightarrow>
            (case parse_expression (length tokens) tokens 0 of
               Inl e \<Rightarrow> Inl e
             | Inr (tree, pos) \<Rightarrow>
                 if tok_type (current_token tokens pos) \<noteq> TOKEN_EOF
                 then Inl (ExpressionSyntaxError
                             (''Unexpected token: '' @ tok_value (current_token tokens pos))
                             (int (tok_position (current_token tokens pos))))
                 else Inr tree))"

section \<open>Table\<close>

text \<open>
  The dictionary \<open>_cells\<close> is an association list in insertion order with distinct keys.
  A \<open>Cell\<close> object is mutated in place: the model rewrites the entry under its key, which
  keeps its place in the order.
\<close>

record 'f table =
  rows :: int
  columns :: int
  cells :: "((int \<times> int) \<times> 'f cell) list"

definition Table :: "int \<Rightarrow> int \<Rightarrow> error + 'f table" where
  "Table r c =
     (if r < 1 \<or> c < 1 then Inl (ValueError ''The number of rows and columns must be >= 1'')
      else Inr \<lparr>rows = r, columns = c, cells = []\<rparr>)"

definition validate_indices :: "'f table \<Rightarrow> int \<Rightarrow> int \<Rightarrow> error option" where
  "validate_indices T r c =
     (if \<not> (0 \<le> r \<and> r < rows T)
      then Some (IndexError (''Row index '' @ py_str r @ '' is out of the table''))
      else if \<not> (0 \<le> c \<and> c < columns T)
      then Some (IndexError (''Column index '' @ py_str c @ '' is out of the table''))
      else None)"

definition resize :: "int \<Rightarrow> int \<Rightarrow> 'f table \<Rightarrow> error + 'f table" where
  "resize r c T =
     (if r < 1 \<or> c < 1 then Inl (ValueError ''The number of rows and columns must be >= 1'')
      else Inr (T\<lparr>cells :=
                     (if r < rows T \<or> c < columns T
                      then filter (\<lambda>((r', c'), cell). \<not> (r' \<ge> r \<or> c' \<ge> c)) (cells T)
                      else cells T),
                   rows := r, columns := c\<rparr>))"

text \<open>\<open>get_cell\<close> returns the cell and the table, in which a missing cell has been created.\<close>

definition get_cell :: "'f table \<Rightarrow> int \<Rightarrow> int \<Rightarrow> error + 'f cell \<times> 'f table" where
  "get_cell T r c =
     (case validate_indices T r c of
        Some e \<Rightarrow> Inl e
      | None \<Rightarrow>
          (case map_of (cells T) (r, c) of
             None \<Rightarrow> Inr (Cell [], T\<lparr>cells := cells T @ [((r, c), Cell [])]\<rparr>)
           | Some cell \<Rightarrow> Inr (cell, T)))"

definition get_cell_by_reference :: "'f table \<Rightarrow> cell_reference \<Rightarrow> error + 'f cell \<times> 'f table" where
  "get_cell_by_reference T reference =
     (case to_indices reference of (r, c) \<Rightarrow> get_cell T r c)"

text \<open>An assignment to attributes of the cell object stored under a key.\<close>

definition modify_cell :: "int \<times> int \<Rightarrow> ('f cell \<Rightarrow> 'f cell) \<Rightarrow> 'f table \<Rightarrow> 'f table" where
  "modify_cell key f T = T\<lparr>cells := AList.map_entry key f (cells T)\<rparr>"

definition clear_all :: "'f table \<Rightarrow> 'f table" where
  "clear_all T = T\<lparr>cells := []\<rparr>"

definition get_all_cells :: "'f table \<Rightarrow> (int \<times> int \<times> 'f cell) list" where
  "get_all_cells T =
     map (\<lambda>((r, c), cell). (r, c, cell)) (filter (\<lambda>((r, c), cell). \<not> is_empty cell) (cells T))"

definition invalidate_all :: "'f table \<Rightarrow> 'f table" where
  "invalidate_all T = T\<lparr>cells := map (\<lambda>(key, cell). (key, invalidate cell)) (cells T)\<rparr>"

section \<open>Evaluator\<close>

definition lift :: "string + 'a \<Rightarrow> error + 'a" where
  "lift r = (case r of Inl m \<Rightarrow> Inl (PyError m) | Inr v \<Rightarrow> Inr v)"

fun py_add :: "'f float_ops \<Rightarrow> 'f pyval \<Rightarrow> 'f pyval \<Rightarrow> error + 'f pyval" where
  "py_add fo (VInt a) (VInt b) = Inr (VInt (a + b))"
| "py_add fo l r = lift (f_arith fo ''+'' l r)"

fun py_sub :: "'f float_ops \<Rightarrow> 'f pyval \<Rightarrow> 'f pyval \<Rightarrow> error + 'f pyval" where
  "py_sub fo (VInt a) (VInt b) = Inr (VInt (a - b))"
| "py_sub fo l r = lift (f_arith fo ''-'' l r)"

fun py_mul :: "'f float_ops \<Rightarrow> 'f pyval \<Rightarrow> 'f pyval \<Rightarrow> error + 'f pyval" where
  "py_mul fo (VInt a) (VInt b) = Inr (VInt (a * b))"
| "py_mul fo l r = lift (f_arith fo ''*'' l r)"

text \<open>\<open>l ** r\<close>, which the evaluator computes only when \<open>r < 0\<close> is false.\<close>

fun py_pow :: "'f float_ops \<Rightarrow> 'f pyval \<Rightarrow> 'f pyval \<Rightarrow> error + 'f pyval" where
  "py_pow fo (VInt a) (VInt b) = Inr (VInt (a ^ nat b))"
| "py_pow fo l r = lift (f_arith fo ''**'' l r)"

text \<open>\<open>round(l / r, 3)\<close>, which the evaluator computes only when \<open>r == 0\<close> is false.\<close>

fun py_div_round :: "'f float_ops \<Rightarrow> 'f pyval \<Rightarrow> 'f pyval \<Rightarrow> error + 'f pyval" where
  "py_div_round fo (VInt a) (VInt b) =
     (case true_divide a b of
        Inl m \<Rightarrow> Inl (PyError m)
      | Inr x \<Rightarrow>
          (case py_round x 3 of
             Inl m \<Rightarrow> Inl (PyError m)
           | Inr d \<Rightarrow> Inr (VFloat (f_float fo d))))"
| "py_div_round fo l r = lift (f_div_round fo l r)"

fun py_eq :: "'f float_ops \<Rightarrow> 'f pyval \<Rightarrow> 'f pyval \<Rightarrow> bool" where
  "py_eq fo (VInt a) (VInt b) = (a = b)"
| "py_eq fo l r = f_eq fo l r"

fun py_lt :: "'f float_ops \<Rightarrow> 'f pyval \<Rightarrow> 'f pyval \<Rightarrow> error + bool" where
  "py_lt fo (VInt a) (VInt b) = Inr (a < b)"
| "py_lt fo l r = lift (f_lt fo l r)"

fun py_gt :: "'f float_ops \<Rightarrow> 'f pyval \<Rightarrow> 'f pyval \<Rightarrow> error + bool" where
  "py_gt fo (VInt a) (VInt b) = Inr (a > b)"
| "py_gt fo l r = lift (f_gt fo l r)"

definition truth :: "bool \<Rightarrow> 'f pyval" where
  "truth b = VInt (if b then 1 else 0)"

text \<open>\<open>visit_unary_op\<close>, once the operand has its value.\<close>

definition unary_op :: "'f float_ops \<Rightarrow> string \<Rightarrow> 'f pyval \<Rightarrow> error + 'f pyval" where
  "unary_op fo op v =
     (if op = ''+'' then Inr v
      else if op = ''-'' then Inr (case v of VInt i \<Rightarrow> VInt (- i) | VFloat x \<Rightarrow> f_neg fo x)
      else if op = ''not'' then Inr (truth (is_zero fo v))
      else Inl (EvaluationError (''Unknown unary operation: '' @ op)))"

text \<open>
  The branches of \<open>visit_binary_op\<close> that evaluate both operands before they look at
  them, once both have their values.
\<close>

definition strict_operators :: "string list" where
  "strict_operators = [''+'', ''-'', ''*'', ''/'', ''^'', ''='', ''<'', ''>'']"

definition binary_op :: "'f float_ops \<Rightarrow> string \<Rightarrow> 'f pyval \<Rightarrow> 'f pyval \<Rightarrow> error + 'f pyval" where
  "binary_op fo op l r =
     (if op = ''+'' then py_add fo l r
      else if op = ''-'' then py_sub fo l r
      else if op = ''*'' then py_mul fo l r
      else if op = ''/'' then
        (if is_zero fo r then Inl (EvaluationError ''Division by zero'')
         else py_div_round fo l r)
      else if op = ''^'' then
        (case py_lt fo r (VInt 0) of
           Inl e \<Rightarrow> Inl e
         | Inr neg \<Rightarrow>
             if neg then Inl (EvaluationError ''A negative exponent is not supported'')
             else py_pow fo l r)
      else if op = ''='' then Inr (truth (py_eq fo l r))
      else if op = ''<'' then (case py_lt fo l r of Inl e \<Rightarrow> Inl e | Inr b \<Rightarrow> Inr (truth b))
      else (case py_gt fo l r of Inl e \<Rightarrow> Inl e | Inr b \<Rightarrow> Inr (truth b)))"

text \<open>
  \<open>TableService._get_cell_value_for_evaluator\<close>, the evaluator's \<open>cell_value_provider\<close>.
  Its argument \<open>accept\<close> is \<open>cell.ast.accept(self._evaluator)\<close>.
\<close>

definition get_cell_value_for_evaluator ::
  "(ast \<Rightarrow> 'f table \<Rightarrow> (error + 'f pyval) \<times> 'f table) \<Rightarrow> cell_reference \<Rightarrow> 'f table
   \<Rightarrow> (error + 'f pyval) \<times> 'f table" where
  "get_cell_value_for_evaluator accept reference T =
     (case get_cell_by_reference T reference of
        Inl e \<Rightarrow> (Inl e, T)
      | Inr (cell, T') \<Rightarrow>
          (case error cell of
             Some err \<Rightarrow>
               (Inl (Exception (''Cell '' @ to_string reference @ '' has an error: '' @ err)), T')
           | None \<Rightarrow>
               if is_empty cell then (Inr (VInt 0), T')
               else if is_literal cell then
                 (case py_int (py_strip (expression cell)) of
                    Some i \<Rightarrow> (Inr (VInt i), T')
                  | None \<Rightarrow>
                      (Inl (Exception (''Cell '' @ to_string reference
                                       @ '' holds a non-numeric value: '' @ expression cell)), T'))
               else if is_formula cell then
                 (case ast cell of
                    None \<Rightarrow>
                      (Inl (Exception (''Cell '' @ to_string reference @ '' was not parsed'')), T')
                  | Some a \<Rightarrow> accept a T')
               else (Inl (Exception (''Unknown content type of cell '' @ to_string reference)), T')))"

text \<open>
  \<open>visit_cell_ref\<close>. The set \<open>_evaluation_stack\<close> is passed down: the reference is in it for
  the call of the provider only, as the \<open>finally\<close> clause has it.
\<close>

definition visit_cell_ref ::
  "(string set \<Rightarrow> ast \<Rightarrow> 'f table \<Rightarrow> (error + 'f pyval) \<times> 'f table) \<Rightarrow> string set
   \<Rightarrow> cell_reference \<Rightarrow> 'f table \<Rightarrow> (error + 'f pyval) \<times> 'f table" where
  "visit_cell_ref accept evaluation_stack reference T =
     (let ref_str = to_string reference in
      if ref_str \<in> evaluation_stack
      then (Inl (CircularReferenceError (''Circular reference detected for cell '' @ ref_str)), T)
      else
        case get_cell_value_for_evaluator (accept (insert ref_str evaluation_stack)) reference T of
          (Inr v, T') \<Rightarrow> (Inr v, T')
        | (Inl e, T') \<Rightarrow>
            (Inl (CellReferenceError
                    (''Error getting the value of cell '' @ ref_str @ '': '' @ message e)), T'))"

text \<open>
  \<open>node.accept(evaluator)\<close>. The first argument bounds the depth of the recursion through
  cell references; where it runs out the provider's call raises \<open>RecursionError\<close>.
\<close>

fun eval :: "'f float_ops \<Rightarrow> nat \<Rightarrow> string set \<Rightarrow> ast \<Rightarrow> 'f table \<Rightarrow> (error + 'f pyval) \<times> 'f table" where
  "eval fo n st (NumberNode v) T = (Inr (VInt v), T)"
| "eval fo 0 st (CellRefNode reference) T =
     visit_cell_ref
       (\<lambda>st' a T'. (Inl (RecursionError ''maximum recursion depth exceeded''), T'))
       st reference T"
| "eval fo (Suc n) st (CellRefNode reference) T =
     visit_cell_ref (\<lambda>st' a T'. eval fo n st' a T') st reference T"
| "eval fo n st (UnaryOpNode op operand) T =
     (case eval fo n st operand T of
        (Inl e, T') \<Rightarrow> (Inl e, T')
      | (Inr v, T') \<Rightarrow> (unary_op fo op v, T'))"
| "eval fo n st (BinaryOpNode op left right) T =
     (if op \<in> set strict_operators then
        (case eval fo n st left T of
           (Inl e, T1) \<Rightarrow> (Inl e, T1)
         | (Inr left_val, T1) \<Rightarrow>
             (case eval fo n st right T1 of
                (Inl e, T2) \<Rightarrow> (Inl e, T2)
              | (Inr right_val, T2) \<Rightarrow> (binary_op fo op left_val right_val, T2)))
      else if op = ''and'' then
        (case eval fo n st left T of
           (Inl e, T1) \<Rightarrow> (Inl e, T1)
         | (Inr left_val, T1) \<Rightarrow>
             if is_zero fo left_val then (Inr (VInt 0), T1)
             else
               (case eval fo n st right T1 of
                  (Inl e, T2) \<Rightarrow> (Inl e, T2)
                | (Inr right_val, T2) \<Rightarrow> (Inr (truth (\<not> is_zero fo right_val)), T2)))
      else if op = ''or'' then
        (case eval fo n st left T of
           (Inl e, T1) \<Rightarrow> (Inl e, T1)
         | (Inr left_val, T1) \<Rightarrow>
             if \<not> is_zero fo left_val then (Inr (VInt 1), T1)
             else
               (case eval fo n st right T1 of
                  (Inl e, T2) \<Rightarrow> (Inl e, T2)
                | (Inr right_val, T2) \<Rightarrow> (Inr (truth (\<not> is_zero fo right_val)), T2)))
      else (Inl (EvaluationError (''Unknown binary operation: '' @ op)), T))"

fun reraised :: "error \<Rightarrow> bool" where
  "reraised (EvaluationError m) = True"
| "reraised (CircularReferenceError m) = True"
| "reraised (CellReferenceError m) = True"
| "reraised e = False"

definition evaluate ::
  "'f float_ops \<Rightarrow> nat \<Rightarrow> ast \<Rightarrow> cell_reference option \<Rightarrow> 'f table
   \<Rightarrow> (error + 'f pyval) \<times> 'f table" where
  "evaluate fo n a current_cell T =
     (case eval fo n (case current_cell of None \<Rightarrow> {} | Some c \<Rightarrow> {to_string c}) a T of
        (Inr v, T') \<Rightarrow> (Inr v, T')
      | (Inl e, T') \<Rightarrow>
          if reraised e then (Inl e, T')
          else (Inl (EvaluationError (''Evaluation error: '' @ message e)), T'))"

section \<open>TableService\<close>

text \<open>
  The service's state is its table; the parser keeps nothing between calls and the
  evaluator's stack is cleared by every \<open>evaluate\<close>. A method that lets an exception through
  returns it as \<open>Inl\<close>.
\<close>

definition resize_table :: "int \<Rightarrow> int \<Rightarrow> 'f table \<Rightarrow> error + 'f table" where
  "resize_table r c T =
     (case resize r c T of
        Inl e \<Rightarrow> Inl e
      | Inr T' \<Rightarrow> Inr (invalidate_all T'))"

definition set_cell_expression ::
  "int \<Rightarrow> int \<Rightarrow> string \<Rightarrow> 'f table \<Rightarrow> error + (bool \<times> string) \<times> 'f table" where
  "set_cell_expression r c expression_text T =
     (case get_cell T r c of
        Inl e \<Rightarrow> Inl e
      | Inr (cell0, T1) \<Rightarrow>
          (let cell = set_expression expression_text cell0 in
           if is_empty cell then
             Inr ((True, []),
                  modify_cell (r, c) (\<lambda>x. set_error None (set_cached_value None cell)) T1)
           else if is_literal cell then
             Inr ((True, []),
                  modify_cell (r, c)
                    (\<lambda>x. set_error None (set_cached_value None (set_ast None cell))) T1)
           else if is_formula cell then
             (case parse (get_formula_expression cell) of
                Inr a \<Rightarrow>
                  Inr ((True, []),
                       modify_cell (r, c) (\<lambda>x. set_error None (set_ast (Some a) cell)) T1)
              | Inl e \<Rightarrow>
                  (let error_msg =
                         (case e of
                            ExpressionSyntaxError m p \<Rightarrow> ''Syntax error: '' @ m
                          | other \<Rightarrow> ''Error: '' @ message other)
                   in Inr ((False, error_msg),
                           modify_cell (r, c)
                             (\<lambda>x. set_cached_value None (set_error (Some error_msg) cell)) T1)))
           else Inr ((True, []), modify_cell (r, c) (\<lambda>x. cell) T1)))"

text \<open>The message \<open>_calculate_cell\<close> stores for an exception of the evaluation.\<close>

definition stored_message :: "error \<Rightarrow> string" where
  "stored_message e =
     (case e of
        CircularReferenceError m \<Rightarrow> ''Circular reference: '' @ m
      | other \<Rightarrow>
          if is_DomainException other then message other
          else ''Evaluation error: '' @ message other)"

definition record_failure :: "int \<times> int \<Rightarrow> error \<Rightarrow> 'f table \<Rightarrow> 'f table" where
  "record_failure key e T =
     modify_cell key (\<lambda>cell. set_cached_value None (set_error (Some (stored_message e)) cell)) T"

definition calculate_cell :: "'f float_ops \<Rightarrow> nat \<Rightarrow> int \<Rightarrow> int \<Rightarrow> 'f table \<Rightarrow> error + 'f table" where
  "calculate_cell fo n r c T =
     (case get_cell T r c of
        Inl e \<Rightarrow> Inl e
      | Inr (cell, T1) \<Rightarrow>
          if is_empty cell then Inr T1
          else
            (case ast cell of
               None \<Rightarrow> Inr T1
             | Some a \<Rightarrow>
                 (case from_indices r c of
                    Inl e \<Rightarrow> Inr (record_failure (r, c) e T1)
                  | Inr current_ref \<Rightarrow>
                      (case evaluate fo n a (Some current_ref) T1 of
                         (Inr v, T2) \<Rightarrow>
                           Inr (modify_cell (r, c)
                                  (\<lambda>cell. set_error None (set_cached_value (Some v) cell)) T2)
                       | (Inl e, T2) \<Rightarrow> Inr (record_failure (r, c) e T2)))))"

text \<open>
  The loop of \<open>calculate_all\<close> over the list \<open>get_all_cells\<close> returned. The list holds the
  cell objects themselves, so the test reads the cell as the table has it now.
\<close>

fun calculate_cells ::
  "'f float_ops \<Rightarrow> nat \<Rightarrow> (int \<times> int \<times> 'f cell) list \<Rightarrow> 'f table \<Rightarrow> error + 'f table" where
  "calculate_cells fo n [] T = Inr T"
| "calculate_cells fo n ((r, c, snapshot) # rest) T =
     (if (case map_of (cells T) (r, c) of
            Some cell \<Rightarrow> is_formula cell \<and> ast cell \<noteq> None
          | None \<Rightarrow> False)
      then (case calculate_cell fo n r c T of
              Inl e \<Rightarrow> Inl e
            | Inr T' \<Rightarrow> calculate_cells fo n rest T')
      else calculate_cells fo n rest T)"

definition calculate_all :: "'f float_ops \<Rightarrow> nat \<Rightarrow> 'f table \<Rightarrow> error + 'f table" where
  "calculate_all fo n T = calculate_cells fo n (get_all_cells T) T"

text \<open>The persistence snapshot: \<open>rows\<close>, \<open>columns\<close> and the list of \<open>row\<close>, \<open>col\<close>, \<open>expression\<close>.\<close>

record table_data =
  data_rows :: int
  data_columns :: int
  data_cells :: "(int \<times> int \<times> string) list"

definition get_table_data_for_export :: "'f table \<Rightarrow> table_data" where
  "get_table_data_for_export T =
     \<lparr>data_rows = rows T, data_columns = columns T,
      data_cells =
        map (\<lambda>(r, c, cell). (r, c, expression cell))
          (filter (\<lambda>(r, c, cell). \<not> is_empty cell) (get_all_cells T))\<rparr>"

fun set_cell_expressions :: "(int \<times> int \<times> string) list \<Rightarrow> 'f table \<Rightarrow> error + 'f table" where
  "set_cell_expressions [] T = Inr T"
| "set_cell_expressions ((r, c, expression_text) # rest) T =
     (case set_cell_expression r c expression_text T of
        Inl e \<Rightarrow> Inl e
      | Inr (res, T') \<Rightarrow> set_cell_expressions rest T')"

definition load_table_data :: "'f float_ops \<Rightarrow> nat \<Rightarrow> table_data \<Rightarrow> error + 'f table" where
  "load_table_data fo n data =
     (case Table (data_rows data) (data_columns data) of
        Inl e \<Rightarrow> Inl e
      | Inr T \<Rightarrow>
          (case set_cell_expressions (data_cells data) T of
             Inl e \<Rightarrow> Inl e
           | Inr T' \<Rightarrow> calculate_all fo n T'))"

section \<open>Table states\<close>

text \<open>
  The cell a position holds, as \<open>get_cell\<close> returns it: the stored cell, or an empty cell
  where none is stored.
\<close>

definition cell_at :: "'f table \<Rightarrow> int \<times> int \<Rightarrow> 'f cell" where
  "cell_at T k = (case map_of (cells T) k of None \<Rightarrow> Cell [] | Some c \<Rightarrow> c)"

definition in_bounds :: "'f table \<Rightarrow> int \<times> int \<Rightarrow> bool" where
  "in_bounds T k = (0 \<le> fst k \<and> fst k < rows T \<and> 0 \<le> snd k \<and> snd k < columns T)"

text \<open>
  The invariant of \<open>Table\<close>: at least one row and one column, and the keys of the
  dictionary are distinct positions inside the table.
\<close>

definition well_formed :: "'f table \<Rightarrow> bool" where
  "well_formed T =
     (1 \<le> rows T \<and> 1 \<le> columns T \<and> distinct (map fst (cells T))
      \<and> (\<forall>k \<in> set (map fst (cells T)). in_bounds T k))"

text \<open>
  What \<open>set_cell_expression\<close> makes of a cell when the text \<open>e\<close> is assigned, and the cell
  a new table holds after that assignment.
\<close>

definition assign :: "string \<Rightarrow> 'f cell \<Rightarrow> 'f cell" where
  "assign e c0 =
     (let cell = set_expression e c0 in
      if is_empty cell then set_error None (set_cached_value None cell)
      else if is_literal cell then set_error None (set_cached_value None (set_ast None cell))
      else if is_formula cell then
        (case parse (get_formula_expression cell) of
           Inr a \<Rightarrow> set_error None (set_ast (Some a) cell)
         | Inl e \<Rightarrow>
             set_cached_value None
               (set_error
                  (Some (case e of
                           ExpressionSyntaxError m p \<Rightarrow> ''Syntax error: '' @ m
                         | other \<Rightarrow> ''Error: '' @ message other)) cell))
      else cell)"

definition assigned :: "string \<Rightarrow> 'f cell" where
  "assigned e = assign e (Cell [])"

text \<open>
  A cell is settled when it is as the assignment of its expression leaves it: an empty cell
  has neither error nor cached value; any other cell has the tree and the error (a syntax
  error or none) that assigning its text produces, and a cached value only if it has a tree.
  A settled table holds no error of an earlier evaluation pass and no formula whose tree
  has been dropped.
\<close>

definition settled_cell :: "'f cell \<Rightarrow> bool" where
  "settled_cell c =
     (if is_empty c then error c = None \<and> cached_value c = None
      else ast c = ast (assigned (expression c) :: 'f cell)
           \<and> error c = error (assigned (expression c) :: 'f cell)
           \<and> (cached_value c = None \<or> ast c \<noteq> None))"

definition settled :: "'f table \<Rightarrow> bool" where
  "settled T = (\<forall>c \<in> set (map snd (cells T)). settled_cell c)"

section \<open>An instance of the non-integer arithmetic\<close>

text \<open>
  Closed examples need one \<open>float_ops\<close>. This one has a single non-integer value, which
  every division returns and on which every other operation raises \<open>TypeError\<close>.
\<close>

definition unit_ops :: "unit float_ops" where
  "unit_ops =
     \<lparr>f_float = (\<lambda>d. ()),
      f_is_zero = (\<lambda>x. False), f_str = (\<lambda>x. ''nan''), f_neg = (\<lambda>x. VFloat x),
      f_arith = (\<lambda>op l r. Inl ''TypeError''), f_div_round = (\<lambda>l r. Inr (VFloat ())),
      f_eq = (\<lambda>l r. False), f_lt = (\<lambda>l r. Inl ''TypeError''),
      f_gt = (\<lambda>l r. Inl ''TypeError'')\<rparr>"

section \<open>Properties of CellReference\<close>

lemma py_ord_nat: "py_ord c = int (of_char c)"
  by (simp add: py_ord_def of_nat_of_char)

lemma in_range_ord: "in_range lo hi c \<longleftrightarrow> int lo \<le> py_ord c \<and> py_ord c \<le> int hi"
  unfolding py_ord_nat in_range_def by simp

lemma py_ord_A: "py_ord CHR ''A'' = 65"
  by (simp add: py_ord_def)

lemma py_ord_char_of: "n < 256 \<Longrightarrow> py_ord (char_of n) = int n"
  unfolding py_ord_nat by simp

lemma int_of_digits_snoc: "int_of_digits (s @ [c]) = 10 * int_of_digits s + (py_ord c - 48)"
  by (simp add: int_of_digits_def)

lemma digit_char_props:
  "d < 10 \<Longrightarrow> is_digit (digit_char d) \<and> py_ord (digit_char d) = 48 + int d"
  by (simp add: is_digit_def digit_char_def in_range_ord py_ord_char_of)

lemma digits10_digits: "list_all is_digit (digits10 n)"
proof (induction n rule: digits10.induct)
  case (1 n)
  show ?case
  proof (cases "n < 10")
    case True
    then show ?thesis by (simp add: digits10.simps [of n] digit_char_props)
  next
    case False
    then have "list_all is_digit (digits10 (n div 10))" using 1 by simp
    moreover have "is_digit (digit_char (n mod 10))" by (simp add: digit_char_props)
    ultimately show ?thesis using False by (simp add: digits10.simps [of n])
  qed
qed

lemma digits10_nonempty: "digits10 n \<noteq> []"
  by (simp add: digits10.simps [of n])

lemma int_of_digits_digits10: "int_of_digits (digits10 n) = int n"
proof (induction n rule: digits10.induct)
  case (1 n)
  show ?case
  proof (cases "n < 10")
    case True
    then show ?thesis
      by (simp add: digits10.simps [of n] int_of_digits_def digit_char_props)
  next
    case False
    then have "int_of_digits (digits10 (n div 10)) = int (n div 10)" using 1 by simp
    moreover have "10 * int (n div 10) + int (n mod 10) = int n" by presburger
    ultimately show ?thesis using False
      by (simp add: digits10.simps [of n] int_of_digits_snoc digit_char_props)
  qed
qed

lemma AZ_not_space: "is_AZ c \<Longrightarrow> \<not> char_isspace c"
  by (auto simp: is_AZ_def char_isspace_def in_range_def)

lemma digit_not_space: "is_digit c \<Longrightarrow> \<not> char_isspace c"
  by (auto simp: is_digit_def char_isspace_def in_range_def)

lemma digit_not_AZ: "is_digit c \<Longrightarrow> \<not> is_AZ c"
  by (auto simp: is_digit_def is_AZ_def in_range_def)

lemma py_strip_id:
  assumes "list_all (\<lambda>c. \<not> char_isspace c) s"
  shows "py_strip s = s"
proof -
  have d: "dropWhile char_isspace t = t" if "list_all (\<lambda>c. \<not> char_isspace c) t" for t
    using that by (cases t) auto
  have "list_all (\<lambda>c. \<not> char_isspace c) (rev s)"
    using assms by (simp add: list_all_iff)
  then show ?thesis using assms by (simp add: py_strip_def d)
qed

lemma char_upper_id: "is_AZ c \<or> is_digit c \<Longrightarrow> char_upper c = [c]"
  by (auto simp: char_upper_def is_AZ_def is_digit_def in_range_def)

lemma py_upper_id: "list_all (\<lambda>c. is_AZ c \<or> is_digit c) s \<Longrightarrow> py_upper s = s"
  by (induction s) (auto simp: py_upper_def char_upper_id)

lemma AZ_valid: "is_AZ c \<Longrightarrow> char_isalpha c \<and> char_isupper c \<and> \<not> char_islower c"
  by (auto simp: is_AZ_def char_isalpha_def char_isupper_def char_islower_def in_range_def)

lemma post_init_AZ:
  assumes "column r \<noteq> []" "list_all is_AZ (column r)" "1 \<le> row r"
  shows "post_init r = Inr r"
proof -
  have "py_isalpha (column r)"
    using assms by (auto simp: py_isalpha_def list_all_iff AZ_valid)
  moreover have "py_isupper (column r)"
    using assms
    by (cases "column r") (auto simp: py_isupper_def list_all_iff list_ex_iff AZ_valid)
  ultimately show ?thesis using assms by (simp add: post_init_def)
qed

text \<open>The value the loop of \<open>_column_to_index\<close> builds, before its final decrement.\<close>

definition col_value :: "string \<Rightarrow> int" where
  "col_value col = foldl (\<lambda>index c. index * 26 + (py_ord c - py_ord CHR ''A'' + 1)) 0 col"

lemma col_value_nonneg: "list_all is_AZ col \<Longrightarrow> 0 \<le> col_value col"
proof (induction col rule: rev_induct)
  case Nil
  then show ?case by (simp add: col_value_def)
next
  case (snoc c col)
  then have "0 \<le> col_value col" "is_AZ c" by simp_all
  then show ?case by (simp add: col_value_def is_AZ_def in_range_ord py_ord_A)
qed

lemma loop_col_value:
  "list_all is_AZ col \<Longrightarrow> index_to_column_loop (col_value col) acc = col @ acc"
proof (induction col arbitrary: acc rule: rev_induct)
  case Nil
  then show ?case by (simp add: col_value_def index_to_column_loop.simps [of 0])
next
  case (snoc c col)
  then have az: "is_AZ c" and all: "list_all is_AZ col" by simp_all
  define d where "d = py_ord c - 65"
  have d: "0 \<le> d" "d < 26" using az by (auto simp: d_def is_AZ_def in_range_ord)
  have v: "col_value (col @ [c]) = col_value col * 26 + d + 1"
    by (simp add: col_value_def d_def py_ord_A)
  have nn: "0 \<le> col_value col" using all by (rule col_value_nonneg)
  have pos: "col_value (col @ [c]) > 0" using v nn d by simp
  have dv: "(col_value (col @ [c]) - 1) div 26 = col_value col" using v d by simp
  have md: "(col_value (col @ [c]) - 1) mod 26 = d" using v d by simp
  have ch: "py_chr (py_ord CHR ''A'' + d) = c"
    by (simp add: d_def py_chr_def py_ord_def)
  show ?case
    using pos snoc.IH [OF all, of "c # acc"]
    by (subst index_to_column_loop.simps) (simp add: dv md ch)
qed

lemma index_to_column_roundtrip:
  "list_all is_AZ col \<Longrightarrow> index_to_column (column_to_index col) = col"
  using loop_col_value [of col "[]"]
  by (simp add: index_to_column_def column_to_index_def col_value_def)

lemma PATTERN_match_to_string:
  assumes "col \<noteq> []" "list_all is_AZ col" "ds \<noteq> []" "list_all is_digit ds"
  shows "PATTERN_match (col @ ds) = Some (col, ds)"
proof -
  have h: "\<not> is_AZ (hd ds)" using assms(3,4) by (cases ds) (auto simp: digit_not_AZ)
  have t: "takeWhile is_AZ ds = []" using h assms(3) by (cases ds) auto
  have dd: "dropWhile is_AZ ds = ds" using h assms(3) by (cases ds) auto
  have "takeWhile is_AZ (col @ ds) = col"
    using assms(2) t by (simp add: list_all_iff)
  moreover have "dropWhile is_AZ (col @ ds) = ds"
    using assms(2) dd by (simp add: list_all_iff)
  ultimately show ?thesis using assms by (simp add: PATTERN_match_def)
qed

lemma from_indices_to_indices:
  assumes "column r \<noteq> []" "list_all is_AZ (column r)" "1 \<le> row r"
  shows "from_indices (fst (to_indices r)) (snd (to_indices r)) = Inr r"
  using assms
  by (simp add: from_indices_def to_indices_def index_to_column_roundtrip post_init_AZ)

lemma from_string_to_string:
  assumes "column r \<noteq> []" "list_all is_AZ (column r)" "1 \<le> row r"
  shows "from_string (to_string r) = Inr r"
proof -
  let ?ds = "digits10 (nat (row r))"
  have s: "to_string r = column r @ ?ds" using assms(3) by (simp add: to_string_def py_str_def)
  have ns: "list_all (\<lambda>c. \<not> char_isspace c) (column r @ ?ds)"
    using assms(2) digits10_digits [of "nat (row r)"]
    by (auto simp: list_all_iff AZ_not_space digit_not_space)
  have up: "list_all (\<lambda>c. is_AZ c \<or> is_digit c) (column r @ ?ds)"
    using assms(2) digits10_digits [of "nat (row r)"] by (auto simp: list_all_iff)
  have m: "PATTERN_match (column r @ ?ds) = Some (column r, ?ds)"
    using assms by (intro PATTERN_match_to_string) (simp_all add: digits10_nonempty digits10_digits)
  have "from_string (to_string r) = post_init \<lparr>column = column r, row = int (nat (row r))\<rparr>"
    by (simp add: from_string_def s py_strip_id [OF ns] py_upper_id [OF up] m
        int_of_digits_digits10)
  also have "\<dots> = post_init r" using assms(3) by (cases r) simp
  finally show ?thesis using assms by (simp add: post_init_AZ)
qed

text \<open>
  Claim C2: for every valid reference, \<open>from_indices(to_indices(r))\<close> and
  \<open>from_string(to_string(r))\<close> return \<open>r\<close>. The code breaks this at the validation:
  \<open>PATTERN\<close>, \<open>_column_to_index\<close> and \<open>_index_to_column\<close> are written for the letters
  \<open>A-Z\<close>, but \<open>__post_init__\<close> tests the column with \<open>isalpha\<close> and \<open>isupper\<close>, which
  also hold of letters such as \<open>0xC0\<close> (A with grave). The constructor accepts that column
  with row 1; \<open>to_indices\<close> sends the reference to the index of column \<open>DX\<close>, so that
  \<open>from_indices\<close> returns another reference, and \<open>from_string\<close> rejects its string form.
\<close>

theorem roundtrip_fails_beyond_AZ:
  "post_init \<lparr>column = [CHR 0xC0], row = 1\<rparr> = Inr \<lparr>column = [CHR 0xC0], row = 1\<rparr>
   \<and> from_indices (fst (to_indices \<lparr>column = [CHR 0xC0], row = 1\<rparr>))
        (snd (to_indices \<lparr>column = [CHR 0xC0], row = 1\<rparr>))
      = Inr \<lparr>column = ''DX'', row = 1\<rparr>
   \<and> from_indices (fst (to_indices \<lparr>column = [CHR 0xC0], row = 1\<rparr>))
        (snd (to_indices \<lparr>column = [CHR 0xC0], row = 1\<rparr>))
      \<noteq> Inr \<lparr>column = [CHR 0xC0], row = 1\<rparr>
   \<and> from_string (to_string \<lparr>column = [CHR 0xC0], row = 1\<rparr>)
      \<noteq> Inr \<lparr>column = [CHR 0xC0], row = 1\<rparr>"
  by code_simp

theorem roundtrip_fails_beyond_AZ_witness:
  "post_init \<lparr>column = [CHR 0xC0], row = 1\<rparr> = Inr \<lparr>column = [CHR 0xC0], row = 1\<rparr>
   \<and> to_indices \<lparr>column = [CHR 0xC0], row = 1\<rparr> = (0, 127)
   \<and> from_indices 0 127 = Inr \<lparr>column = ''DX'', row = 1\<rparr>
   \<and> from_string (to_string \<lparr>column = [CHR 0xC0], row = 1\<rparr>)
      \<noteq> Inr \<lparr>column = [CHR 0xC0], row = 1\<rparr>"
proof -
  have "to_indices \<lparr>column = [CHR 0xC0], row = 1\<rparr> = (0, 127)" by code_simp
  then show ?thesis using roundtrip_fails_beyond_AZ by simp
qed

text \<open>
  On the columns that \<open>PATTERN\<close> and \<open>_index_to_column\<close> produce the round trips hold:
  for every reference whose column is a non-empty sequence of the letters \<open>A-Z\<close> and whose
  row is at least 1, \<open>from_indices(to_indices(r))\<close> and \<open>from_string(to_string(r))\<close> both
  return \<open>r\<close>; the column numbering is bijective base 26, with index 0 for \<open>A\<close>, 25 for
  \<open>Z\<close> and 26 for \<open>AA\<close>.
\<close>

theorem cell_reference_roundtrip:
  assumes "column r \<noteq> []" and "list_all is_AZ (column r)" and "1 \<le> row r"
  shows "from_indices (fst (to_indices r)) (snd (to_indices r)) = Inr r
         \<and> from_string (to_string r) = Inr r
         \<and> index_to_column 0 = ''A'' \<and> index_to_column 25 = ''Z''
         \<and> index_to_column 26 = ''AA''"
proof -
  have "index_to_column 0 = ''A''" "index_to_column 25 = ''Z''" "index_to_column 26 = ''AA''"
    by code_simp+
  then show ?thesis
    using from_indices_to_indices [OF assms] from_string_to_string [OF assms] by simp
qed

theorem cell_reference_roundtrip_witness:
  "from_indices (fst (to_indices \<lparr>column = ''AB'', row = 10\<rparr>))
     (snd (to_indices \<lparr>column = ''AB'', row = 10\<rparr>)) = Inr \<lparr>column = ''AB'', row = 10\<rparr>
   \<and> from_string (to_string \<lparr>column = ''AB'', row = 10\<rparr>) = Inr \<lparr>column = ''AB'', row = 10\<rparr>
   \<and> to_indices \<lparr>column = ''AB'', row = 10\<rparr> = (9, 27)
   \<and> to_string \<lparr>column = ''AB'', row = 10\<rparr> = ''AB10''"
proof -
  have "to_indices \<lparr>column = ''AB'', row = 10\<rparr> = (9, 27)"
    and "to_string \<lparr>column = ''AB'', row = 10\<rparr> = ''AB10''"
    by code_simp+
  moreover have "column \<lparr>column = ''AB'', row = 10\<rparr> \<noteq> []"
    and "list_all is_AZ (column \<lparr>column = ''AB'', row = 10\<rparr>)"
    and "1 \<le> row \<lparr>column = ''AB'', row = 10\<rparr>"
    by (simp_all add: is_AZ_def in_range_def)
  ultimately show ?thesis
    using cell_reference_roundtrip [of "\<lparr>column = ''AB'', row = 10\<rparr>"] by simp
qed

section \<open>Properties of the parser\<close>


section \<open>Properties of Cell\<close>

text \<open>
  Claim C9: assigning an expression that differs from the current text stores it, sets
  \<open>ast\<close>, \<open>cached_value\<close> and \<open>error\<close> to \<open>None\<close> and marks the cell dirty; assigning the
  identical text leaves the cell exactly as it was.
\<close>

theorem expression_assignment:
  "(expression c \<noteq> v \<longrightarrow>
      set_expression v c
        = \<lparr>expression = v, ast = None, cached_value = None, error = None, is_dirty = True\<rparr>)
   \<and> (expression c = v \<longrightarrow> set_expression v c = c)"
  by (cases c) (simp add: set_expression_def invalidate_def)

theorem expression_assignment_witness:
  "set_expression ''=2''
     (\<lparr>expression = ''=1'', ast = Some (NumberNode 1), cached_value = Some (VInt 1),
       error = None, is_dirty = False\<rparr> :: unit cell)
     = \<lparr>expression = ''=2'', ast = None, cached_value = None, error = None, is_dirty = True\<rparr>
   \<and> set_expression ''=1''
     (\<lparr>expression = ''=1'', ast = Some (NumberNode 1), cached_value = Some (VInt 1),
       error = None, is_dirty = False\<rparr> :: unit cell)
     = \<lparr>expression = ''=1'', ast = Some (NumberNode 1), cached_value = Some (VInt 1),
        error = None, is_dirty = False\<rparr>"
  using expression_assignment
          [of "\<lparr>expression = ''=1'', ast = Some (NumberNode 1), cached_value = Some (VInt 1),
                error = None, is_dirty = False\<rparr> :: unit cell" "''=2''"]
        expression_assignment
          [of "\<lparr>expression = ''=1'', ast = Some (NumberNode 1), cached_value = Some (VInt 1),
                error = None, is_dirty = False\<rparr> :: unit cell" "''=1''"]
  by simp

text \<open>
  Claim C10: a formula cell with a cached value and no error is displayed as \<open>TRUE\<close> or
  \<open>FALSE\<close> (value non-zero or zero) whenever the lower-cased formula text contains one of
  \<open>and\<close>, \<open>or\<close>, \<open>not\<close>, \<open>=\<close>, \<open>\<less>\<close>, \<open>\<greater>\<close> as a substring, wherever it stands, and as the string
  of the cached value otherwise.
\<close>

theorem display_value_of_formula:
  assumes "is_formula c" and "cached_value c = Some v" and "error c = None"
  shows "get_display_value fo c =
           (if list_ex (\<lambda>op. py_in op (py_lower (get_formula_expression c)))
                 [''and'', ''or'', ''not'', ''='', ''<'', ''>'']
            then (if is_zero fo v then ''FALSE'' else ''TRUE'')
            else (case v of VInt i \<Rightarrow> py_str i | VFloat x \<Rightarrow> f_str fo x))"
  using assms
  by (cases v)
     (simp_all add: get_display_value_def has_error_def is_literal_def
        is_boolean_expression_def logical_operators_def)

theorem display_value_of_formula_witness:
  "get_display_value unit_ops
     \<lparr>expression = ''=OR1+AND2'', ast = None, cached_value = Some (VInt 7), error = None,
      is_dirty = False\<rparr> = ''TRUE''
   \<and> get_display_value unit_ops
     \<lparr>expression = ''=A1+2'', ast = None, cached_value = Some (VInt 7), error = None,
      is_dirty = False\<rparr> = ''7''"
proof -
  let ?c = "\<lparr>expression = ''=OR1+AND2'', ast = None, cached_value = Some (VInt 7),
             error = None, is_dirty = False\<rparr> :: unit cell"
  let ?d = "\<lparr>expression = ''=A1+2'', ast = None, cached_value = Some (VInt 7),
             error = None, is_dirty = False\<rparr> :: unit cell"
  have c: "is_formula ?c"
    and lc: "list_ex (\<lambda>op. py_in op (py_lower (get_formula_expression ?c)))
               [''and'', ''or'', ''not'', ''='', ''<'', ''>'']"
    by code_simp+
  have d: "is_formula ?d"
    and ld: "\<not> list_ex (\<lambda>op. py_in op (py_lower (get_formula_expression ?d)))
               [''and'', ''or'', ''not'', ''='', ''<'', ''>'']"
    and s: "py_str 7 = ''7''"
    by code_simp+
  show ?thesis
    using display_value_of_formula [of ?c "VInt 7" unit_ops, OF c]
          display_value_of_formula [of ?d "VInt 7" unit_ops, OF d]
          lc ld s
    by simp
qed

section \<open>Properties of the evaluator\<close>

lemma texts_stripped:
  "py_strip ''=A1'' = ''=A1''" "py_strip ''A1'' = ''A1''"
  "py_strip ''=B1'' = ''=B1''" "py_strip ''B1'' = ''B1''"
  "py_strip ''=B2'' = ''=B2''" "py_strip ''B2'' = ''B2''"
  "py_strip ''5'' = ''5''"
  by code_simp+

lemma texts_parsed:
  "parse ''A1'' = Inr (CellRefNode \<lparr>column = ''A'', row = 1\<rparr>)"
  "parse ''B1'' = Inr (CellRefNode \<lparr>column = ''B'', row = 1\<rparr>)"
  "parse ''B2'' = Inr (CellRefNode \<lparr>column = ''B'', row = 2\<rparr>)"
  by code_simp+

lemma references_A1_B1_B2:
  "from_indices 0 0 = Inr \<lparr>column = ''A'', row = 1\<rparr>"
  "from_indices 0 1 = Inr \<lparr>column = ''B'', row = 1\<rparr>"
  "to_string \<lparr>column = ''A'', row = 1\<rparr> = ''A1''"
  "to_string \<lparr>column = ''B'', row = 1\<rparr> = ''B1''"
  "to_string \<lparr>column = ''B'', row = 2\<rparr> = ''B2''"
  "to_indices \<lparr>column = ''A'', row = 1\<rparr> = (0, 0)"
  "to_indices \<lparr>column = ''B'', row = 1\<rparr> = (0, 1)"
  "to_indices \<lparr>column = ''B'', row = 2\<rparr> = (1, 1)"
  "py_str 1 = ''1''"
  by code_simp+

lemmas cell_simps =
  Cell_def set_expression_def invalidate_def is_empty_def is_literal_def is_formula_def
  get_formula_expression_def set_error_def set_ast_def set_cached_value_def

lemmas table_simps =
  get_cell_def get_cell_by_reference_def validate_indices_def modify_cell_def
  get_all_cells_def

lemmas service_simps =
  set_cell_expression_def calculate_all_def calculate_cell_def record_failure_def
  stored_message_def evaluate_def visit_cell_ref_def get_cell_value_for_evaluator_def

text \<open>A division whose divisor evaluates to zero raises \<open>EvaluationError\<close>.\<close>

lemma division_by_zero:
  assumes "eval fo n st left T = (Inr lv, T1)" and "eval fo n st right T1 = (Inr rv, T2)"
    and "is_zero fo rv"
  shows "eval fo n st (BinaryOpNode ''/'' left right) T
           = (Inl (EvaluationError ''Division by zero''), T2)"
  using assms by (simp add: strict_operators_def binary_op_def)

lemma five_by_zero:
  "parse ''5/0'' = Inr (BinaryOpNode ''/'' (NumberNode 5) (NumberNode 0))"
  "evaluate fo n (BinaryOpNode ''/'' (NumberNode 5) (NumberNode 0)) cur T
     = (Inl (EvaluationError ''Division by zero''), T)"
  by code_simp (simp add: evaluate_def strict_operators_def binary_op_def)

lemma formulas_parsed:
  "parse (get_formula_expression (Cell ''=0 and (1/0)'' :: unit cell))
     = Inr (BinaryOpNode ''and'' (NumberNode 0)
              (BinaryOpNode ''/'' (NumberNode 1) (NumberNode 0)))"
  "parse (get_formula_expression (Cell ''=1 and 0'' :: unit cell))
     = Inr (BinaryOpNode ''and'' (NumberNode 1) (NumberNode 0))"
  "parse (get_formula_expression (Cell ''=1 or 0'' :: unit cell))
     = Inr (BinaryOpNode ''or'' (NumberNode 1) (NumberNode 0))"
  by code_simp+

text \<open>
  Claim C3: once the left operand of \<open>and\<close> has evaluated to zero the result is 0 and the
  right operand is not evaluated (neither its value, its error nor its effect on the table
  appears); otherwise the right operand is evaluated and the result is 1 or 0. \<open>or\<close> is
  the mirror image. The formulas \<open>=0 and (1/0)\<close>, \<open>=1 and 0\<close> and \<open>=1 or 0\<close> parse to such
  nodes and evaluate to 0, 0 and 1 without an error.
\<close>

theorem and_or_short_circuit:
  assumes "eval fo n st left T = (Inr lv, T1)"
  shows "eval fo n st (BinaryOpNode ''and'' left right) T =
           (if is_zero fo lv then (Inr (VInt 0), T1)
            else case eval fo n st right T1 of
                   (Inl e, T2) \<Rightarrow> (Inl e, T2)
                 | (Inr rv, T2) \<Rightarrow> (Inr (VInt (if is_zero fo rv then 0 else 1)), T2))
       \<and> eval fo n st (BinaryOpNode ''or'' left right) T =
           (if \<not> is_zero fo lv then (Inr (VInt 1), T1)
            else case eval fo n st right T1 of
                   (Inl e, T2) \<Rightarrow> (Inl e, T2)
                 | (Inr rv, T2) \<Rightarrow> (Inr (VInt (if is_zero fo rv then 0 else 1)), T2))
       \<and> parse (get_formula_expression (Cell ''=0 and (1/0)'' :: unit cell))
           = Inr (BinaryOpNode ''and'' (NumberNode 0)
                    (BinaryOpNode ''/'' (NumberNode 1) (NumberNode 0)))
       \<and> evaluate fo n (BinaryOpNode ''and'' (NumberNode 0)
                          (BinaryOpNode ''/'' (NumberNode 1) (NumberNode 0))) cur T
           = (Inr (VInt 0), T)
       \<and> parse (get_formula_expression (Cell ''=1 and 0'' :: unit cell))
           = Inr (BinaryOpNode ''and'' (NumberNode 1) (NumberNode 0))
       \<and> evaluate fo n (BinaryOpNode ''and'' (NumberNode 1) (NumberNode 0)) cur T
           = (Inr (VInt 0), T)
       \<and> parse (get_formula_expression (Cell ''=1 or 0'' :: unit cell))
           = Inr (BinaryOpNode ''or'' (NumberNode 1) (NumberNode 0))
       \<and> evaluate fo n (BinaryOpNode ''or'' (NumberNode 1) (NumberNode 0)) cur T
           = (Inr (VInt 1), T)"
proof -
  have "eval fo n st (BinaryOpNode ''and'' left right) T =
           (if is_zero fo lv then (Inr (VInt 0), T1)
            else case eval fo n st right T1 of
                   (Inl e, T2) \<Rightarrow> (Inl e, T2)
                 | (Inr rv, T2) \<Rightarrow> (Inr (VInt (if is_zero fo rv then 0 else 1)), T2))"
    using assms by (simp add: strict_operators_def truth_def split: prod.splits sum.splits)
  moreover have "eval fo n st (BinaryOpNode ''or'' left right) T =
           (if \<not> is_zero fo lv then (Inr (VInt 1), T1)
            else case eval fo n st right T1 of
                   (Inl e, T2) \<Rightarrow> (Inl e, T2)
                 | (Inr rv, T2) \<Rightarrow> (Inr (VInt (if is_zero fo rv then 0 else 1)), T2))"
    using assms by (simp add: strict_operators_def truth_def split: prod.splits sum.splits)
  moreover have "evaluate fo n (BinaryOpNode ''and'' (NumberNode 0)
                          (BinaryOpNode ''/'' (NumberNode 1) (NumberNode 0))) cur T
           = (Inr (VInt 0), T)"
    and "evaluate fo n (BinaryOpNode ''and'' (NumberNode 1) (NumberNode 0)) cur T
           = (Inr (VInt 0), T)"
    and "evaluate fo n (BinaryOpNode ''or'' (NumberNode 1) (NumberNode 0)) cur T
           = (Inr (VInt 1), T)"
    by (simp_all add: evaluate_def strict_operators_def truth_def)
  ultimately show ?thesis using formulas_parsed by simp
qed

theorem and_or_short_circuit_witness:
  "eval unit_ops 0 {} (BinaryOpNode ''and'' (NumberNode 0)
        (BinaryOpNode ''/'' (NumberNode 1) (NumberNode 0)))
     \<lparr>rows = 10, columns = 10, cells = []\<rparr>
     = (Inr (VInt 0), \<lparr>rows = 10, columns = 10, cells = []\<rparr>)
   \<and> eval unit_ops 0 {} (BinaryOpNode ''or'' (NumberNode 0)
        (BinaryOpNode ''/'' (NumberNode 1) (NumberNode 0)))
     \<lparr>rows = 10, columns = 10, cells = []\<rparr>
     = (Inl (EvaluationError ''Division by zero''), \<lparr>rows = 10, columns = 10, cells = []\<rparr>)"
proof -
  have h: "eval unit_ops 0 {} (NumberNode 0) \<lparr>rows = 10, columns = 10, cells = []\<rparr>
             = (Inr (VInt 0), \<lparr>rows = 10, columns = 10, cells = []\<rparr>)"
    by simp
  have d: "eval unit_ops 0 {} (BinaryOpNode ''/'' (NumberNode 1) (NumberNode 0))
             \<lparr>rows = 10, columns = 10, cells = []\<rparr>
             = (Inl (EvaluationError ''Division by zero''), \<lparr>rows = 10, columns = 10, cells = []\<rparr>)"
    by (simp add: strict_operators_def binary_op_def)
  show ?thesis
    using and_or_short_circuit
            [OF h, of "BinaryOpNode ''/'' (NumberNode 1) (NumberNode 0)"] d
    by simp
qed

text \<open>
  Claim C1, at the cycle A1 = \<open>=B1\<close>, B1 = \<open>=A1\<close> in a new table: the cycle is detected
  inside the provider's call for B1, where \<open>visit_cell_ref\<close> raises
  \<open>CircularReferenceError\<close>; the \<open>except Exception\<close> clause of the enclosing \<open>visit_cell_ref\<close>
  turns it into \<open>CellReferenceError\<close>, and that is what \<open>evaluate\<close> raises and the pass
  stores on A1 (and, for the error now stored on A1, on B1).
\<close>

theorem indirect_cycle_surfaces_as_CellReferenceError:
  "set_cell_expressions [(0, 0, ''=B1''), (0, 1, ''=A1'')] \<lparr>rows = 10, columns = 10, cells = []\<rparr>
     = Inr \<lparr>rows = 10, columns = 10,
            cells = [((0, 0),
                      \<lparr>expression = ''=B1'',
                       ast = Some (CellRefNode \<lparr>column = ''B'', row = 1\<rparr>),
                       cached_value = None, error = None, is_dirty = True\<rparr>),
                     ((0, 1),
                      \<lparr>expression = ''=A1'',
                       ast = Some (CellRefNode \<lparr>column = ''A'', row = 1\<rparr>),
                       cached_value = None, error = None, is_dirty = True\<rparr>)]\<rparr>
   \<and> fst (evaluate fo (Suc n) (CellRefNode \<lparr>column = ''B'', row = 1\<rparr>)
           (Some \<lparr>column = ''A'', row = 1\<rparr>)
           \<lparr>rows = 10, columns = 10,
            cells = [((0, 0),
                      \<lparr>expression = ''=B1'',
                       ast = Some (CellRefNode \<lparr>column = ''B'', row = 1\<rparr>),
                       cached_value = None, error = None, is_dirty = True\<rparr>),
                     ((0, 1),
                      \<lparr>expression = ''=A1'',
                       ast = Some (CellRefNode \<lparr>column = ''A'', row = 1\<rparr>),
                       cached_value = None, error = None, is_dirty = True\<rparr>)]\<rparr>)
     = Inl (CellReferenceError
              ''Error getting the value of cell B1: Circular reference detected for cell A1'')
   \<and> calculate_all fo (Suc n)
        \<lparr>rows = 10, columns = 10,
         cells = [((0, 0),
                   \<lparr>expression = ''=B1'',
                    ast = Some (CellRefNode \<lparr>column = ''B'', row = 1\<rparr>),
                    cached_value = None, error = None, is_dirty = True\<rparr>),
                  ((0, 1),
                   \<lparr>expression = ''=A1'',
                    ast = Some (CellRefNode \<lparr>column = ''A'', row = 1\<rparr>),
                    cached_value = None, error = None, is_dirty = True\<rparr>)]\<rparr>
     = Inr \<lparr>rows = 10, columns = 10,
            cells = [((0, 0),
                      \<lparr>expression = ''=B1'',
                       ast = Some (CellRefNode \<lparr>column = ''B'', row = 1\<rparr>),
                       cached_value = None,
                       error = Some ''Error getting the value of cell B1: Circular reference detected for cell A1'',
                       is_dirty = False\<rparr>),
                     ((0, 1),
                      \<lparr>expression = ''=A1'',
                       ast = Some (CellRefNode \<lparr>column = ''A'', row = 1\<rparr>),
                       cached_value = None,
                       error = Some ''Error getting the value of cell A1: Cell A1 has an error: Error getting the value of cell B1: Circular reference detected for cell A1'',
                       is_dirty = False\<rparr>)]\<rparr>"
proof -
  have "set_cell_expressions [(0, 0, ''=B1''), (0, 1, ''=A1'')]
          \<lparr>rows = 10, columns = 10, cells = []\<rparr>
     = Inr \<lparr>rows = 10, columns = 10,
            cells = [((0, 0),
                      \<lparr>expression = ''=B1'',
                       ast = Some (CellRefNode \<lparr>column = ''B'', row = 1\<rparr>),
                       cached_value = None, error = None, is_dirty = True\<rparr>),
                     ((0, 1),
                      \<lparr>expression = ''=A1'',
                       ast = Some (CellRefNode \<lparr>column = ''A'', row = 1\<rparr>),
                       cached_value = None, error = None, is_dirty = True\<rparr>)]\<rparr>"
    by (simp add: set_cell_expression_def table_simps cell_simps texts_stripped texts_parsed)
  moreover have "fst (evaluate fo (Suc n) (CellRefNode \<lparr>column = ''B'', row = 1\<rparr>)
           (Some \<lparr>column = ''A'', row = 1\<rparr>)
           \<lparr>rows = 10, columns = 10,
            cells = [((0, 0),
                      \<lparr>expression = ''=B1'',
                       ast = Some (CellRefNode \<lparr>column = ''B'', row = 1\<rparr>),
                       cached_value = None, error = None, is_dirty = True\<rparr>),
                     ((0, 1),
                      \<lparr>expression = ''=A1'',
                       ast = Some (CellRefNode \<lparr>column = ''A'', row = 1\<rparr>),
                       cached_value = None, error = None, is_dirty = True\<rparr>)]\<rparr>)
     = Inl (CellReferenceError
              ''Error getting the value of cell B1: Circular reference detected for cell A1'')"
    by (cases n)
       (simp_all add: service_simps table_simps cell_simps texts_stripped references_A1_B1_B2)
  moreover have "calculate_all fo (Suc n)
        \<lparr>rows = 10, columns = 10,
         cells = [((0, 0),
                   \<lparr>expression = ''=B1'',
                    ast = Some (CellRefNode \<lparr>column = ''B'', row = 1\<rparr>),
                    cached_value = None, error = None, is_dirty = True\<rparr>),
                  ((0, 1),
                   \<lparr>expression = ''=A1'',
                    ast = Some (CellRefNode \<lparr>column = ''A'', row = 1\<rparr>),
                    cached_value = None, error = None, is_dirty = True\<rparr>)]\<rparr>
     = Inr \<lparr>rows = 10, columns = 10,
            cells = [((0, 0),
                      \<lparr>expression = ''=B1'',
                       ast = Some (CellRefNode \<lparr>column = ''B'', row = 1\<rparr>),
                       cached_value = None,
                       error = Some ''Error getting the value of cell B1: Circular reference detected for cell A1'',
                       is_dirty = False\<rparr>),
                     ((0, 1),
                      \<lparr>expression = ''=A1'',
                       ast = Some (CellRefNode \<lparr>column = ''A'', row = 1\<rparr>),
                       cached_value = None,
                       error = Some ''Error getting the value of cell A1: Cell A1 has an error: Error getting the value of cell B1: Circular reference detected for cell A1'',
                       is_dirty = False\<rparr>)]\<rparr>"
    by (cases n)
       (simp_all add: service_simps table_simps cell_simps texts_stripped references_A1_B1_B2)
  ultimately show ?thesis by simp
qed

text \<open>
  Claim C6, in a 2 by 2 table with A1 = \<open>=B2\<close> and B2 = \<open>5\<close>, resized to 1 by 1:
  \<open>resize_table\<close> removes B2 and then invalidates every cell, which also drops the parsed
  tree of A1; the pass skips a formula without a tree, so A1 ends with neither an error
  nor a value. After \<open>Table.resize\<close> alone the pass does record the \<open>CellReferenceError\<close>.
\<close>

theorem resize_table_then_pass_records_nothing:
  "set_cell_expressions [(0, 0, ''=B2''), (1, 1, ''5'')] \<lparr>rows = 2, columns = 2, cells = []\<rparr>
     = Inr \<lparr>rows = 2, columns = 2,
            cells = [((0, 0),
                      \<lparr>expression = ''=B2'',
                       ast = Some (CellRefNode \<lparr>column = ''B'', row = 2\<rparr>),
                       cached_value = None, error = None, is_dirty = True\<rparr>),
                     ((1, 1),
                      \<lparr>expression = ''5'', ast = None, cached_value = None, error = None,
                       is_dirty = False\<rparr>)]\<rparr>
   \<and> resize_table 1 1
        \<lparr>rows = 2, columns = 2,
         cells = [((0, 0),
                   \<lparr>expression = ''=B2'',
                    ast = Some (CellRefNode \<lparr>column = ''B'', row = 2\<rparr>),
                    cached_value = None, error = None, is_dirty = True\<rparr>),
                  ((1, 1),
                   \<lparr>expression = ''5'', ast = None, cached_value = None, error = None,
                    is_dirty = False\<rparr>)]\<rparr>
     = Inr \<lparr>rows = 1, columns = 1,
            cells = [((0, 0),
                      \<lparr>expression = ''=B2'', ast = None, cached_value = None, error = None,
                       is_dirty = True\<rparr>)]\<rparr>
   \<and> calculate_all fo n
        \<lparr>rows = 1, columns = 1,
         cells = [((0, 0),
                   \<lparr>expression = ''=B2'', ast = None, cached_value = None, error = None,
                    is_dirty = True\<rparr>)]\<rparr>
     = Inr \<lparr>rows = 1, columns = 1,
            cells = [((0, 0),
                      \<lparr>expression = ''=B2'', ast = None, cached_value = None, error = None,
                       is_dirty = True\<rparr>)]\<rparr>
   \<and> resize 1 1
        \<lparr>rows = 2, columns = 2,
         cells = [((0, 0),
                   \<lparr>expression = ''=B2'',
                    ast = Some (CellRefNode \<lparr>column = ''B'', row = 2\<rparr>),
                    cached_value = None, error = None, is_dirty = True\<rparr>),
                  ((1, 1),
                   \<lparr>expression = ''5'', ast = None, cached_value = None, error = None,
                    is_dirty = False\<rparr>)]\<rparr>
     = Inr \<lparr>rows = 1, columns = 1,
            cells = [((0, 0),
                      \<lparr>expression = ''=B2'',
                       ast = Some (CellRefNode \<lparr>column = ''B'', row = 2\<rparr>),
                       cached_value = None, error = None, is_dirty = True\<rparr>)]\<rparr>
   \<and> calculate_all fo n
        \<lparr>rows = 1, columns = 1,
         cells = [((0, 0),
                   \<lparr>expression = ''=B2'',
                    ast = Some (CellRefNode \<lparr>column = ''B'', row = 2\<rparr>),
                    cached_value = None, error = None, is_dirty = True\<rparr>)]\<rparr>
     = Inr \<lparr>rows = 1, columns = 1,
            cells = [((0, 0),
                      \<lparr>expression = ''=B2'',
                       ast = Some (CellRefNode \<lparr>column = ''B'', row = 2\<rparr>),
                       cached_value = None,
                       error = Some ''Error getting the value of cell B2: Row index 1 is out of the table'',
                       is_dirty = False\<rparr>)]\<rparr>"
proof -
  have "set_cell_expressions [(0, 0, ''=B2''), (1, 1, ''5'')]
          \<lparr>rows = 2, columns = 2, cells = []\<rparr>
     = Inr \<lparr>rows = 2, columns = 2,
            cells = [((0, 0),
                      \<lparr>expression = ''=B2'',
                       ast = Some (CellRefNode \<lparr>column = ''B'', row = 2\<rparr>),
                       cached_value = None, error = None, is_dirty = True\<rparr>),
                     ((1, 1),
                      \<lparr>expression = ''5'', ast = None, cached_value = None, error = None,
                       is_dirty = False\<rparr>)]\<rparr>"
    by (simp add: set_cell_expression_def table_simps cell_simps texts_stripped texts_parsed)
  moreover have "resize_table 1 1
        \<lparr>rows = 2, columns = 2,
         cells = [((0, 0),
                   \<lparr>expression = ''=B2'',
                    ast = Some (CellRefNode \<lparr>column = ''B'', row = 2\<rparr>),
                    cached_value = None, error = None, is_dirty = True\<rparr>),
                  ((1, 1),
                   \<lparr>expression = ''5'', ast = None, cached_value = None, error = None,
                    is_dirty = False\<rparr>)]\<rparr>
     = Inr \<lparr>rows = 1, columns = 1,
            cells = [((0, 0),
                      \<lparr>expression = ''=B2'', ast = None, cached_value = None, error = None,
                       is_dirty = True\<rparr>)]\<rparr>"
    by (simp add: resize_table_def resize_def invalidate_all_def invalidate_def)
  moreover have "calculate_all fo n
        \<lparr>rows = 1, columns = 1,
         cells = [((0, 0),
                   \<lparr>expression = ''=B2'', ast = None, cached_value = None, error = None,
                    is_dirty = True\<rparr>)]\<rparr>
     = Inr \<lparr>rows = 1, columns = 1,
            cells = [((0, 0),
                      \<lparr>expression = ''=B2'', ast = None, cached_value = None, error = None,
                       is_dirty = True\<rparr>)]\<rparr>"
    by (simp add: calculate_all_def table_simps cell_simps texts_stripped)
  moreover have "resize 1 1
        \<lparr>rows = 2, columns = 2,
         cells = [((0, 0),
                   \<lparr>expression = ''=B2'',
                    ast = Some (CellRefNode \<lparr>column = ''B'', row = 2\<rparr>),
                    cached_value = None, error = None, is_dirty = True\<rparr>),
                  ((1, 1),
                   \<lparr>expression = ''5'', ast = None, cached_value = None, error = None,
                    is_dirty = False\<rparr>)]\<rparr>
     = Inr \<lparr>rows = 1, columns = 1,
            cells = [((0, 0),
                      \<lparr>expression = ''=B2'',
                       ast = Some (CellRefNode \<lparr>column = ''B'', row = 2\<rparr>),
                       cached_value = None, error = None, is_dirty = True\<rparr>)]\<rparr>"
    by (simp add: resize_def)
  moreover have "calculate_all fo n
        \<lparr>rows = 1, columns = 1,
         cells = [((0, 0),
                   \<lparr>expression = ''=B2'',
                    ast = Some (CellRefNode \<lparr>column = ''B'', row = 2\<rparr>),
                    cached_value = None, error = None, is_dirty = True\<rparr>)]\<rparr>
     = Inr \<lparr>rows = 1, columns = 1,
            cells = [((0, 0),
                      \<lparr>expression = ''=B2'',
                       ast = Some (CellRefNode \<lparr>column = ''B'', row = 2\<rparr>),
                       cached_value = None,
                       error = Some ''Error getting the value of cell B2: Row index 1 is out of the table'',
                       is_dirty = False\<rparr>)]\<rparr>"
    by (cases n)
       (simp_all add: service_simps table_simps cell_simps texts_stripped references_A1_B1_B2)
  ultimately show ?thesis by simp
qed

section \<open>Division\<close>

subsection \<open>The nearest float\<close>

text \<open>
  The loop of \<open>scale\<close> stops at the first denominator \<open>q * 2 ^ k\<close> that brings the quotient
  below \<open>2 ^ 53\<close>, so that the quotient is at least \<open>2 ^ 52\<close> unless \<open>k\<close> is 0.
\<close>

lemma scale_spec:
  "0 < q \<Longrightarrow> scale N q e0 = (den, e)
   \<Longrightarrow> \<exists>k::nat. den = q * 2 ^ k \<and> e = e0 + int k \<and> N < den * 2 ^ 53
         \<and> (k = 0 \<or> den * 2 ^ 52 \<le> N)"
proof (induction N q e0 rule: scale.induct)
  case (1 num q e0)
  show ?case
  proof (cases "num < q * 2 ^ 53")
    case True
    then have "den = q" "e = e0" using 1(3) by (simp_all add: scale.simps [of num q e0])
    then have "den = q * 2 ^ 0 \<and> e = e0 + int 0 \<and> num < den * 2 ^ 53" using True by simp
    then show ?thesis by blast
  next
    case False
    then have s: "scale num (2 * q) (e0 + 1) = (den, e)"
      using 1(2,3) by (simp add: scale.simps [of num q e0])
    from 1(1) [OF _ _ s] False 1(2)
    obtain k :: nat where k: "den = 2 * q * 2 ^ k" "e = e0 + 1 + int k" "num < den * 2 ^ 53"
      "k = 0 \<or> den * 2 ^ 52 \<le> num"
      by auto
    have "den * 2 ^ 52 \<le> num"
    proof (cases "k = 0")
      case True
      then show ?thesis using k(1) False by simp
    next
      case False
      then show ?thesis using k(4) by simp
    qed
    then have "den = q * 2 ^ Suc k \<and> e = e0 + int (Suc k) \<and> num < den * 2 ^ 53
               \<and> (Suc k = 0 \<or> den * 2 ^ 52 \<le> num)"
      using k by simp
    then show ?thesis by blast
  qed
qed

lemma scale_eq:
  "0 < q \<Longrightarrow> N < q * 2 ^ k * 2 ^ 53 \<Longrightarrow> k = 0 \<or> q * 2 ^ k * 2 ^ 52 \<le> N
   \<Longrightarrow> scale N q e0 = (q * 2 ^ k, e0 + int k)"
proof (induction k arbitrary: q e0)
  case 0
  then show ?case by (simp add: scale.simps [of N q e0])
next
  case (Suc k)
  have "q * 2 ^ 53 \<le> q * 2 ^ Suc k * 2 ^ 52" using Suc(2) by simp
  then have "\<not> N < q * 2 ^ 53" using Suc(4) by simp
  moreover have "scale N (2 * q) (e0 + 1) = (2 * q * 2 ^ k, e0 + 1 + int k)"
    using Suc(2,3,4) by (intro Suc(1)) (simp_all add: mult_ac)
  ultimately show ?case using Suc(2) by (simp add: scale.simps [of N q e0] mult_ac)
qed

lemma round_half_even_cases:
  "round_half_even num den = num div den \<or> round_half_even num den = num div den + 1"
  by (simp add: round_half_even_def Let_def)

lemma round_half_even_up:
  "round_half_even num den = num div den + 1 \<Longrightarrow> den \<le> 2 * (num mod den)"
  by (auto simp: round_half_even_def Let_def split: if_splits)

lemma nearest_spec:
  assumes p: "0 \<le> p" and q: "0 < q" and n: "nearest p q = (m, e)"
  shows "\<exists>(k::nat) d r D.
           D = q * 2 ^ k \<and> p * 2 ^ 1074 = D * d + r \<and> 0 \<le> r \<and> r < D \<and> 0 \<le> d \<and> d < 2 ^ 53
           \<and> (k = 0 \<or> 2 ^ 52 \<le> d)
           \<and> (if D < 2 * r \<or> (2 * r = D \<and> odd d)
               then (if d + 1 = 2 ^ 53 then m = 2 ^ 52 \<and> e = int k - 1073
                     else m = d + 1 \<and> e = int k - 1074)
               else m = d \<and> e = int k - 1074)"
proof -
  define N where "N = p * 2 ^ 1074"
  obtain den e0 where s: "scale N q (- 1074) = (den, e0)" by (cases "scale N q (- 1074)")
  from scale_spec [OF q s] obtain k :: nat where
    k: "den = q * 2 ^ k" "e0 = - 1074 + int k" "N < den * 2 ^ 53" "k = 0 \<or> den * 2 ^ 52 \<le> N"
    by blast
  have D: "0 < den" using q k(1) by simp
  have N0: "0 \<le> N" using p by (simp add: N_def)
  define d where "d = N div den"
  define r where "r = N mod den"
  have dr: "N = den * d + r" by (simp add: d_def r_def)
  have r: "0 \<le> r" "r < den" using D by (simp_all add: r_def)
  have d0: "0 \<le> d" using N0 D by (simp add: d_def pos_imp_zdiv_nonneg_iff)
  have "den * d < den * 2 ^ 53" using k(3) dr r(1) by linarith
  then have d1: "d < 2 ^ 53" using D by (simp only: mult_less_cancel_left_pos)
  have d2: "k = 0 \<or> 2 ^ 52 \<le> d"
  proof (cases "k = 0")
    case False
    then have "den * 2 ^ 52 < den * (d + 1)" using k(4) dr r(2) by (simp add: algebra_simps)
    then have "2 ^ 52 < d + 1" using D by (simp only: mult_less_cancel_left_pos)
    then show ?thesis by simp
  qed simp
  have m: "(m, e) = (let m = round_half_even N den in
                     if m = 2 ^ 53 then (2 ^ 52, e0 + 1) else (m, e0))"
    using n s by (simp add: nearest_def N_def)
  have "if den < 2 * r \<or> (2 * r = den \<and> odd d)
        then (if d + 1 = 2 ^ 53 then m = 2 ^ 52 \<and> e = int k - 1073
              else m = d + 1 \<and> e = int k - 1074)
        else m = d \<and> e = int k - 1074"
    using m d1 k(2) by (auto simp: round_half_even_def Let_def d_def r_def)
  then show ?thesis using k(1) dr r d0 d1 d2 unfolding N_def by blast
qed

text \<open>
  What \<open>nearest\<close> returns is at most half a unit of its last place away from the quotient,
  and it is beyond the largest float exactly when the quotient is at least
  \<open>2 ^ 1024 - 2 ^ 970\<close>, half a unit above that float.
\<close>

lemma nearest_significand:
  assumes "0 \<le> p" and "0 < q" and "nearest p q = (m, e)"
  shows "0 \<le> m \<and> m < 2 ^ 53"
  using nearest_spec [OF assms] by (auto split: if_splits)

lemma nearest_exponent:
  assumes p: "0 \<le> p" and q: "0 < q" and n: "nearest p q = (m, e)"
  shows "971 < e \<longleftrightarrow> (2 ^ 1024 - 2 ^ 970) * q \<le> p"
proof -
  from nearest_spec [OF assms] obtain k :: nat and d r D where
    D: "D = q * 2 ^ k" and P: "p * 2 ^ 1074 = D * d + r" and r: "0 \<le> r" "r < D"
    and d: "0 \<le> d" "d < 2 ^ 53" and kd: "k = 0 \<or> 2 ^ 52 \<le> d"
    and me: "if D < 2 * r \<or> (2 * r = D \<and> odd d)
             then (if d + 1 = 2 ^ 53 then m = 2 ^ 52 \<and> e = int k - 1073
                   else m = d + 1 \<and> e = int k - 1074)
             else m = d \<and> e = int k - 1074"
    by blast
  have D0: "0 < D" using q D by simp
  have up: "D * d + D \<le> D * 2 ^ 53"
  proof -
    have "D * (d + 1) \<le> D * 2 ^ 53" using d(2) D0 by (intro mult_left_mono) simp_all
    then show ?thesis by (simp add: algebra_simps)
  qed
  show ?thesis
  proof
    assume e: "971 < e"
    show "(2 ^ 1024 - 2 ^ 970) * q \<le> p"
    proof (cases "(D < 2 * r \<or> (2 * r = D \<and> odd d)) \<and> d + 1 = 2 ^ 53")
      case True
      then have "e = int k - 1073" using me by (simp split: if_splits)
      then have k: "2045 \<le> k" using e by simp
      have dv: "d = 2 ^ 53 - 1" using True by simp
      have "(2::int) ^ 2045 \<le> 2 ^ k" using k by (intro power_increasing) simp_all
      then have "q * 2 ^ 2045 \<le> D" using q D by simp
      then have "q * 2 ^ 2045 * (2 ^ 54 - 1) \<le> D * (2 ^ 54 - 1)"
        by (intro mult_right_mono) simp_all
      also have "D * (2 ^ 54 - 1) = 2 * (D * d) + D" by (simp add: dv algebra_simps)
      also have "\<dots> \<le> 2 * (D * d) + 2 * r" using True by auto
      also have "\<dots> = 2 * (p * 2 ^ 1074)" using P by simp
      finally show ?thesis by simp
    next
      case False
      then have ek: "e = int k - 1074" using me by (auto split: if_splits)
      then have k: "2046 \<le> k" using e by simp
      then have d52: "2 ^ 52 \<le> d" using kd by auto
      have "(2::int) ^ 2046 \<le> 2 ^ k" using k by (intro power_increasing) simp_all
      then have "q * 2 ^ 2046 \<le> D" using q D by simp
      then have "q * 2 ^ 2046 * 2 ^ 52 \<le> D * 2 ^ 52" by (intro mult_right_mono) simp_all
      also have "\<dots> \<le> D * d" using d52 D0 by (intro mult_left_mono) simp_all
      also have "\<dots> \<le> p * 2 ^ 1074" using P r(1) by simp
      finally show ?thesis using q by simp
    qed
  next
    assume t: "(2 ^ 1024 - 2 ^ 970) * q \<le> p"
    have k: "2045 \<le> k"
    proof (rule ccontr)
      assume "\<not> 2045 \<le> k"
      then have "k \<le> 2044" by simp
      then have "(2::int) ^ k \<le> 2 ^ 2044" by (intro power_increasing) simp_all
      then have "D \<le> q * 2 ^ 2044" using q D by simp
      then have "D * 2 ^ 53 \<le> q * 2 ^ 2044 * 2 ^ 53" by (intro mult_right_mono) simp_all
      moreover have "p * 2 ^ 1074 < D * d + D" using P r(2) by simp
      ultimately have "p * 2 ^ 1074 < q * 2 ^ 2044 * 2 ^ 53" using up by linarith
      then show False using t q by simp
    qed
    show "971 < e"
    proof (cases "k = 2045")
      case False
      then have "2046 \<le> k" using k by simp
      then show ?thesis using me by (auto split: if_splits)
    next
      case True
      have Dv: "D = q * 2 ^ 2045" using D True by simp
      have low: "D * (2 ^ 54 - 1) \<le> 2 * (D * d) + 2 * r"
      proof -
        have "D * (2 ^ 54 - 1) \<le> 2 * (p * 2 ^ 1074)" using t q by (simp add: Dv)
        then show ?thesis using P by simp
      qed
      have dv: "d = 2 ^ 53 - 1"
      proof (rule ccontr)
        assume "d \<noteq> 2 ^ 53 - 1"
        then have "d + 2 \<le> 2 ^ 53" using d(2) by simp
        then have "D * (d + 2) \<le> D * 2 ^ 53" using D0 by (intro mult_left_mono) simp_all
        then have "D * d + 2 * D \<le> D * 2 ^ 53" by (simp add: algebra_simps)
        moreover have "D * (2 ^ 54 - 1) = 2 * (D * 2 ^ 53) - D" by (simp add: algebra_simps)
        ultimately show False using low r(2) D0 by linarith
      qed
      have "D * (2 ^ 54 - 1) = 2 * (D * d) + D" by (simp add: dv algebra_simps)
      then have "D \<le> 2 * r" using low by linarith
      moreover have "odd d" by (simp add: dv)
      ultimately have "D < 2 * r \<or> (2 * r = D \<and> odd d)" by auto
      moreover have "d + 1 = 2 ^ 53" by (simp add: dv)
      ultimately have "e = int k - 1073" using me by (simp split: if_splits)
      then show ?thesis using True by simp
    qed
  qed
qed

subsection \<open>Division and rounding\<close>

lemma round_half_even_bounds:
  assumes "0 \<le> num" and "1 \<le> den"
  shows "0 \<le> round_half_even num den \<and> round_half_even num den \<le> num"
proof -
  define d where "d = num div den"
  define r where "r = num mod den"
  have dr: "num = d * den + r" by (simp add: d_def r_def)
  have r: "0 \<le> r" "r < den" using assms(2) by (simp_all add: r_def)
  have d: "0 \<le> d" using assms by (simp add: d_def pos_imp_zdiv_nonneg_iff)
  have dd: "d \<le> d * den" using d assms(2) by (simp add: mult_le_cancel_left1)
  show ?thesis
  proof (cases "den < 2 * r \<or> (2 * r = den \<and> odd d)")
    case False
    then have "round_half_even num den = d"
      by (simp add: round_half_even_def Let_def d_def r_def)
    then show ?thesis using d dd dr r(1) by simp
  next
    case True
    then have v: "round_half_even num den = d + 1"
      by (simp add: round_half_even_def Let_def d_def r_def)
    have "1 \<le> r" using True assms(2) by auto
    then show ?thesis using v d dd dr by simp
  qed
qed

lemma py_round_total:
  assumes "0 \<le> significand x" and "significand x < 2 ^ 53" and "exponent x \<le> 971"
  shows "\<exists>m e. py_round x ndigits = Inr (Double (negative x) m e)"
proof -
  define num where "num = significand x * 10 ^ ndigits * 2 ^ nat (exponent x)"
  define k where "k = round_half_even num (2 ^ nat (- exponent x))"
  have n0: "0 \<le> num" using assms(1) by (simp add: num_def)
  have k: "0 \<le> k" "k \<le> num"
    using round_half_even_bounds [OF n0, of "2 ^ nat (- exponent x)"] by (simp_all add: k_def)
  have "(2::int) ^ nat (exponent x) \<le> 2 ^ 971"
    using assms(3) by (intro power_increasing) simp_all
  moreover have "significand x * 10 ^ ndigits \<le> (2 ^ 53 - 1) * 10 ^ ndigits"
    using assms(2) by (intro mult_right_mono) simp_all
  ultimately have "num \<le> (2 ^ 53 - 1) * 10 ^ ndigits * 2 ^ 971"
    unfolding num_def using assms(1) by (intro mult_mono) simp_all
  also have "\<dots> = (2 ^ 53 - 1) * 2 ^ 971 * 10 ^ ndigits" by (simp add: mult_ac)
  also have "\<dots> < (2 ^ 1024 - 2 ^ 970) * 10 ^ ndigits"
    by (intro mult_strict_right_mono) simp_all
  finally have lt: "k < (2 ^ 1024 - 2 ^ 970) * 10 ^ ndigits" using k(2) by simp
  obtain m e where me: "nearest k (10 ^ ndigits) = (m, e)" by (cases "nearest k (10 ^ ndigits)")
  have "\<not> 971 < e" using nearest_exponent [OF k(1) _ me] lt by simp
  then have "py_round x ndigits = Inr (Double (negative x) m e)"
    using me by (simp add: py_round_def k_def num_def)
  then show ?thesis by blast
qed

lemma true_divide_overflow:
  assumes "b \<noteq> 0"
  shows "true_divide a b =
           (if (2 ^ 1024 - 2 ^ 970) * \<bar>b\<bar> \<le> \<bar>a\<bar>
            then Inl ''integer division result too large for a float''
            else Inr (Double ((a < 0) \<noteq> (b < 0)) (fst (nearest \<bar>a\<bar> \<bar>b\<bar>))
                        (snd (nearest \<bar>a\<bar> \<bar>b\<bar>))))"
proof -
  obtain m e where me: "nearest \<bar>a\<bar> \<bar>b\<bar> = (m, e)" by (cases "nearest \<bar>a\<bar> \<bar>b\<bar>")
  have "971 < e \<longleftrightarrow> (2 ^ 1024 - 2 ^ 970) * \<bar>b\<bar> \<le> \<bar>a\<bar>"
    using nearest_exponent [OF _ _ me] assms by simp
  then show ?thesis using assms me by (simp add: true_divide_def)
qed

lemma true_divide_round:
  assumes "true_divide a b = Inr x"
  shows "\<exists>m e. py_round x ndigits = Inr (Double (negative x) m e)"
proof -
  have b: "b \<noteq> 0" using assms by (auto simp: true_divide_def)
  obtain m e where me: "nearest \<bar>a\<bar> \<bar>b\<bar> = (m, e)" by (cases "nearest \<bar>a\<bar> \<bar>b\<bar>")
  have x: "x = Double ((a < 0) \<noteq> (b < 0)) m e" and e: "e \<le> 971"
    using assms b me by (auto simp: true_divide_def split: if_splits)
  have "0 \<le> m \<and> m < 2 ^ 53" using nearest_significand [OF _ _ me] b by simp
  then show ?thesis using py_round_total [of x ndigits] x e by simp
qed

lemma nearest_error:
  assumes "0 \<le> p" and "0 < q" and "nearest p q = (m, e)"
  shows "- 1074 \<le> e
         \<and> 2 * \<bar>p * 2 ^ 1074 - q * m * 2 ^ nat (e + 1074)\<bar> \<le> q * 2 ^ nat (e + 1074)"
proof -
  from nearest_spec [OF assms] obtain k :: nat and d r D where
    D: "D = q * 2 ^ k" and P: "p * 2 ^ 1074 = D * d + r" and r: "0 \<le> r" "r < D"
    and me: "if D < 2 * r \<or> (2 * r = D \<and> odd d)
             then (if d + 1 = 2 ^ 53 then m = 2 ^ 52 \<and> e = int k - 1073
                   else m = d + 1 \<and> e = int k - 1074)
             else m = d \<and> e = int k - 1074"
    by blast
  have D0: "0 < D" using assms(2) D by simp
  show ?thesis
  proof (cases "D < 2 * r \<or> (2 * r = D \<and> odd d)")
    case False
    then have "m = d" "e = int k - 1074" using me by simp_all
    then have "q * m * 2 ^ nat (e + 1074) = D * d" "q * 2 ^ nat (e + 1074) = D"
      by (simp_all add: D mult_ac)
    then show ?thesis using P r False \<open>e = int k - 1074\<close> by auto
  next
    case True
    show ?thesis
    proof (cases "d + 1 = 2 ^ 53")
      case False
      then have v: "m = d + 1" "e = int k - 1074" using me True by simp_all
      then have "q * m * 2 ^ nat (e + 1074) = D * d + D" "q * 2 ^ nat (e + 1074) = D"
        by (simp_all add: D algebra_simps)
      then show ?thesis using P r True v(2) by auto
    next
      case c: True
      then have v: "m = 2 ^ 52" "e = int k - 1073" using me True by simp_all
      have n: "nat (e + 1074) = Suc k" using v(2) by simp
      have "q * m * 2 ^ nat (e + 1074) = D * (d + 1)" unfolding n c v(1) D by simp
      then have "q * m * 2 ^ nat (e + 1074) = D * d + D" by (simp add: algebra_simps)
      moreover have "q * 2 ^ nat (e + 1074) = 2 * D" unfolding n D by simp
      ultimately show ?thesis using P r True v(2) D0 by auto
    qed
  qed
qed

subsection \<open>The division of the evaluator\<close>

lemma division_texts:
  "parse (get_formula_expression (Cell ''=5/2'' :: unit cell))
     = Inr (BinaryOpNode ''/'' (NumberNode 5) (NumberNode 2))"
  "parse (get_formula_expression (Cell ''=5/0'' :: unit cell))
     = Inr (BinaryOpNode ''/'' (NumberNode 5) (NumberNode 0))"
  "parse (get_formula_expression (Cell ''=10^400/1'' :: unit cell))
     = Inr (BinaryOpNode ''/'' (BinaryOpNode ''^'' (NumberNode 10) (NumberNode 400))
              (NumberNode 1))"
  by code_simp+

text \<open>
  \<open>5 / 2\<close> is 2.5, which \<open>round\<close> returns as it is; \<open>1 / 3\<close> is the float nearest to one
  third, and \<open>round\<close> returns the float nearest to 0.333.
\<close>

lemma five_by_two:
  "true_divide 5 2 = Inr (Double False (5 * 2 ^ 50) (- 51))"
  "py_round (Double False (5 * 2 ^ 50) (- 51)) 3 = Inr (Double False (5 * 2 ^ 50) (- 51))"
  by (simp_all add: true_divide_def py_round_def nearest_def round_half_even_def
      scale_eq [where k = 1023 and q = 2] scale_eq [where k = 1023 and q = 1000])

lemma one_by_three:
  "true_divide 1 3 = Inr (Double False 6004799503160661 (- 54))"
  "py_round (Double False 6004799503160661 (- 54)) 3 = Inr (Double False 5998794703657501 (- 54))"
  by (simp_all add: true_divide_def py_round_def nearest_def round_half_even_def
      scale_eq [where k = 1020 and q = 3] scale_eq [where k = 1020 and q = 1000])

lemma division_of_integers:
  assumes "b \<noteq> 0"
  shows "binary_op fo ''/'' (VInt a) (VInt b) =
           (if (2 ^ 1024 - 2 ^ 970) * \<bar>b\<bar> \<le> \<bar>a\<bar>
            then Inl (PyError ''integer division result too large for a float'')
            else Inr (VFloat (f_float fo
                   (case py_round (case true_divide a b of Inr x \<Rightarrow> x) 3 of Inr d \<Rightarrow> d))))"
proof (cases "(2 ^ 1024 - 2 ^ 970) * \<bar>b\<bar> \<le> \<bar>a\<bar>")
  case True
  then show ?thesis using assms by (simp add: binary_op_def true_divide_overflow)
next
  case False
  then obtain x where x: "true_divide a b = Inr x"
    using assms by (simp add: true_divide_overflow)
  from true_divide_round [OF x, of 3] obtain d where "py_round x 3 = Inr d" by blast
  then show ?thesis using False x assms by (simp add: binary_op_def)
qed

text \<open>
  Claim C4, as the code has it. In \<open>=10^400/1\<close> the divisor evaluates to 1, and the division
  of the integers raises \<open>OverflowError\<close>, which \<open>evaluate\<close> raises again as
  \<open>EvaluationError\<close>.
\<close>

theorem nonzero_divisor_raises:
  "parse (get_formula_expression (Cell ''=10^400/1'' :: unit cell))
     = Inr (BinaryOpNode ''/'' (BinaryOpNode ''^'' (NumberNode 10) (NumberNode 400))
              (NumberNode 1))
   \<and> evaluate unit_ops 0 (NumberNode 1) None \<lparr>rows = 1, columns = 1, cells = []\<rparr>
       = (Inr (VInt 1), \<lparr>rows = 1, columns = 1, cells = []\<rparr>)
   \<and> evaluate unit_ops 0
         (BinaryOpNode ''/'' (BinaryOpNode ''^'' (NumberNode 10) (NumberNode 400))
            (NumberNode 1))
         None \<lparr>rows = 1, columns = 1, cells = []\<rparr>
       = (Inl (EvaluationError
                 ''Evaluation error: integer division result too large for a float''),
          \<lparr>rows = 1, columns = 1, cells = []\<rparr>)"
proof -
  have "binary_op unit_ops ''^'' (VInt 10) (VInt 400) = Inr (VInt (10 ^ 400))"
    by (simp add: binary_op_def)
  moreover have "binary_op unit_ops ''/'' (VInt (10 ^ 400)) (VInt 1)
                   = Inl (PyError ''integer division result too large for a float'')"
    by (simp add: division_of_integers)
  ultimately show ?thesis
    using division_texts(3) by (simp add: evaluate_def strict_operators_def)
qed

text \<open>
  Claim C4, amended: a division whose divisor evaluates to zero raises \<open>EvaluationError\<close>.
  A division of integers by a divisor that is not zero raises \<open>EvaluationError\<close> exactly
  when the quotient is beyond the largest float, that is when
  \<open>(2 ^ 1024 - 2 ^ 970) * |b| \<le> |a|\<close>; otherwise its value is \<open>round(a / b, 3)\<close>, the float
  nearest to the quotient, rounded to three decimals. \<open>=5/2\<close> evaluates to 2.5, the float
  \<open>5 * 2 ^ 50 * 2 ^ - 51\<close>, and \<open>=5/0\<close> raises the \<open>EvaluationError\<close> of the division by zero.
\<close>

theorem division_result:
  assumes "eval fo n (case cur of None \<Rightarrow> {} | Some c \<Rightarrow> {to_string c}) left T = (Inr lv, T1)"
    and "eval fo n (case cur of None \<Rightarrow> {} | Some c \<Rightarrow> {to_string c}) right T1 = (Inr rv, T2)"
  shows "(is_zero fo rv \<longrightarrow>
            evaluate fo n (BinaryOpNode ''/'' left right) cur T
              = (Inl (EvaluationError ''Division by zero''), T2))
       \<and> (\<forall>a b. lv = VInt a \<and> rv = VInt b \<and> b \<noteq> 0 \<longrightarrow>
            (if (2 ^ 1024 - 2 ^ 970) * \<bar>b\<bar> \<le> \<bar>a\<bar>
             then evaluate fo n (BinaryOpNode ''/'' left right) cur T
                    = (Inl (EvaluationError
                         ''Evaluation error: integer division result too large for a float''),
                       T2)
             else \<exists>x d. true_divide a b = Inr x \<and> py_round x 3 = Inr d
                    \<and> evaluate fo n (BinaryOpNode ''/'' left right) cur T
                        = (Inr (VFloat (f_float fo d)), T2)))
       \<and> parse (get_formula_expression (Cell ''=5/2'' :: unit cell))
           = Inr (BinaryOpNode ''/'' (NumberNode 5) (NumberNode 2))
       \<and> evaluate fo n (BinaryOpNode ''/'' (NumberNode 5) (NumberNode 2)) cur T
           = (Inr (VFloat (f_float fo (Double False (5 * 2 ^ 50) (- 51)))), T)
       \<and> parse (get_formula_expression (Cell ''=5/0'' :: unit cell))
           = Inr (BinaryOpNode ''/'' (NumberNode 5) (NumberNode 0))
       \<and> evaluate fo n (BinaryOpNode ''/'' (NumberNode 5) (NumberNode 0)) cur T
           = (Inl (EvaluationError ''Division by zero''), T)"
proof -
  have z: "is_zero fo rv \<longrightarrow>
            evaluate fo n (BinaryOpNode ''/'' left right) cur T
              = (Inl (EvaluationError ''Division by zero''), T2)"
    using assms by (simp add: evaluate_def strict_operators_def binary_op_def)
  have i: "if (2 ^ 1024 - 2 ^ 970) * \<bar>b\<bar> \<le> \<bar>a\<bar>
           then evaluate fo n (BinaryOpNode ''/'' left right) cur T
                  = (Inl (EvaluationError
                       ''Evaluation error: integer division result too large for a float''),
                     T2)
           else \<exists>x d. true_divide a b = Inr x \<and> py_round x 3 = Inr d
                  \<and> evaluate fo n (BinaryOpNode ''/'' left right) cur T
                      = (Inr (VFloat (f_float fo d)), T2)"
    if v: "lv = VInt a" "rv = VInt b" "b \<noteq> 0" for a b
  proof (cases "(2 ^ 1024 - 2 ^ 970) * \<bar>b\<bar> \<le> \<bar>a\<bar>")
    case True
    then show ?thesis
      using assms v by (simp add: evaluate_def strict_operators_def division_of_integers)
  next
    case False
    then obtain x where x: "true_divide a b = Inr x"
      using v(3) by (simp add: true_divide_overflow)
    from true_divide_round [OF x, of 3] obtain d where d: "py_round x 3 = Inr d" by blast
    have "evaluate fo n (BinaryOpNode ''/'' left right) cur T
            = (Inr (VFloat (f_float fo d)), T2)"
      using assms v x d by (simp add: evaluate_def strict_operators_def binary_op_def)
    then show ?thesis using False x d by auto
  qed
  have "binary_op fo ''/'' (VInt 5) (VInt 2)
          = Inr (VFloat (f_float fo (Double False (5 * 2 ^ 50) (- 51))))"
    using five_by_two by (simp add: binary_op_def)
  then have "evaluate fo n (BinaryOpNode ''/'' (NumberNode 5) (NumberNode 2)) cur T
          = (Inr (VFloat (f_float fo (Double False (5 * 2 ^ 50) (- 51)))), T)"
    by (simp add: evaluate_def strict_operators_def)
  moreover have "evaluate fo n (BinaryOpNode ''/'' (NumberNode 5) (NumberNode 0)) cur T
          = (Inl (EvaluationError ''Division by zero''), T)"
    by (simp add: evaluate_def strict_operators_def binary_op_def)
  ultimately show ?thesis using z i division_texts(1,2) by blast
qed

theorem division_result_witness:
  "evaluate unit_ops 0 (BinaryOpNode ''/'' (NumberNode 7) (NumberNode 0)) None
     \<lparr>rows = 1, columns = 1, cells = []\<rparr>
     = (Inl (EvaluationError ''Division by zero''), \<lparr>rows = 1, columns = 1, cells = []\<rparr>)
   \<and> true_divide 1 3 = Inr (Double False 6004799503160661 (- 54))
   \<and> py_round (Double False 6004799503160661 (- 54)) 3
       = Inr (Double False 5998794703657501 (- 54))
   \<and> evaluate unit_ops 0 (BinaryOpNode ''/'' (NumberNode 1) (NumberNode 3)) None
        \<lparr>rows = 1, columns = 1, cells = []\<rparr>
       = (Inr (VFloat (f_float unit_ops (Double False 5998794703657501 (- 54)))),
          \<lparr>rows = 1, columns = 1, cells = []\<rparr>)"
proof -
  let ?T = "\<lparr>rows = 1, columns = 1, cells = []\<rparr> :: unit table"
  have e: "eval unit_ops 0 (case None of None \<Rightarrow> {} | Some c \<Rightarrow> {to_string c})
             (NumberNode v) ?T = (Inr (VInt v), ?T)" for v
    by simp
  have "\<not> (2 ^ 1024 - 2 ^ 970) * \<bar>3::int\<bar> \<le> \<bar>1\<bar>" by simp
  then obtain x d where "true_divide 1 3 = Inr x" "py_round x 3 = Inr d"
    "evaluate unit_ops 0 (BinaryOpNode ''/'' (NumberNode 1) (NumberNode 3)) None ?T
       = (Inr (VFloat (f_float unit_ops d)), ?T)"
    using division_result [OF e [of 1] e [of 3]] by auto
  moreover have "evaluate unit_ops 0 (BinaryOpNode ''/'' (NumberNode 7) (NumberNode 0)) None ?T
                   = (Inl (EvaluationError ''Division by zero''), ?T)"
    using division_result [OF e [of 7] e [of 0]] by simp
  ultimately show ?thesis using one_by_three by simp
qed

section \<open>Export and load\<close>

subsection \<open>Tables that differ by empty cells\<close>

definition touch :: "int \<times> int \<Rightarrow> 'f table \<Rightarrow> 'f table" where
  "touch k T =
     (case map_of (cells T) k of
        None \<Rightarrow> T\<lparr>cells := cells T @ [(k, Cell [])]\<rparr>
      | Some c \<Rightarrow> T)"

definition frame :: "'f table \<Rightarrow> 'f table \<Rightarrow> bool" where
  "frame T T' =
     (rows T' = rows T \<and> columns T' = columns T
      \<and> (\<forall>k. map_of (cells T') k = map_of (cells T) k
              \<or> map_of (cells T) k = None \<and> map_of (cells T') k = Some (Cell [])))"

definition cell_eqv :: "'f cell \<Rightarrow> 'f cell \<Rightarrow> bool" where
  "cell_eqv c1 c2 =
     (error c1 = error c2
      \<and> (is_empty c1 \<and> is_empty c2 \<or> expression c1 = expression c2 \<and> ast c1 = ast c2))"

definition sim :: "'f table \<Rightarrow> 'f table \<Rightarrow> bool" where
  "sim T1 T2 =
     (rows T1 = rows T2 \<and> columns T1 = columns T2
      \<and> (\<forall>k. cell_eqv (cell_at T1 k) (cell_at T2 k)))"

lemma frame_refl: "frame T T"
  by (simp add: frame_def)

lemma frame_trans: "frame T T' \<Longrightarrow> frame T' T'' \<Longrightarrow> frame T T''"
  unfolding frame_def by (metis option.distinct(1))

lemma frame_cell_at: "frame T T' \<Longrightarrow> cell_at T' k = cell_at T k"
  unfolding frame_def cell_at_def by (metis option.simps(4,5))

lemma frame_present: "frame T T' \<Longrightarrow> map_of (cells T) k = Some c \<Longrightarrow> map_of (cells T') k = Some c"
  unfolding frame_def by (metis option.distinct(1))

lemma frame_dims: "frame T T' \<Longrightarrow> rows T' = rows T \<and> columns T' = columns T"
  by (simp add: frame_def)

lemma frame_touch: "frame T (touch k T)"
  by (auto simp: frame_def touch_def map_add_def split: option.splits)

lemma map_of_touch: "map_of (cells (touch k T)) k = Some (cell_at T k)"
  by (auto simp: touch_def cell_at_def map_add_def split: option.splits)

lemma validate_in_bounds: "validate_indices T r c = None \<longleftrightarrow> in_bounds T (r, c)"
  by (auto simp: validate_indices_def in_bounds_def)

lemma get_cell_in_bounds:
  "in_bounds T (r, c) \<Longrightarrow> get_cell T r c = Inr (cell_at T (r, c), touch (r, c) T)"
  using validate_in_bounds [of T r c]
  by (auto simp: get_cell_def cell_at_def touch_def split: option.splits)

lemma get_cell_out_of_bounds:
  "\<not> in_bounds T (r, c) \<Longrightarrow> \<exists>e. validate_indices T r c = Some e \<and> get_cell T r c = Inl e"
  using validate_in_bounds [of T r c]
  by (cases "validate_indices T r c") (auto simp: get_cell_def)

lemma sim_in_bounds: "sim T1 T2 \<Longrightarrow> in_bounds T1 k = in_bounds T2 k"
  by (simp add: sim_def in_bounds_def)

lemma sim_validate: "sim T1 T2 \<Longrightarrow> validate_indices T1 r c = validate_indices T2 r c"
  by (simp add: sim_def validate_indices_def)

lemma sim_frame: "sim T1 T2 \<Longrightarrow> frame T1 T1' \<Longrightarrow> frame T2 T2' \<Longrightarrow> sim T1' T2'"
  by (simp add: sim_def frame_cell_at frame_dims)

lemma sim_cell: "sim T1 T2 \<Longrightarrow> cell_eqv (cell_at T1 k) (cell_at T2 k)"
  unfolding sim_def by blast

lemma empty_not_formula: "is_empty c \<Longrightarrow> \<not> is_formula c"
  by (simp add: is_empty_def is_formula_def)

lemma eqv_is_empty: "cell_eqv c1 c2 \<Longrightarrow> is_empty c1 = is_empty c2"
  by (auto simp: cell_eqv_def is_empty_def)

lemma eqv_is_formula: "cell_eqv c1 c2 \<Longrightarrow> is_formula c1 = is_formula c2"
  by (auto simp: cell_eqv_def is_formula_def is_empty_def)

lemma eqv_is_literal: "cell_eqv c1 c2 \<Longrightarrow> is_literal c1 = is_literal c2"
  by (simp add: is_literal_def eqv_is_empty eqv_is_formula)

subsection \<open>The provider and visit_cell_ref\<close>

lemma provider_frame:
  assumes acc: "\<And>a U res U'. accept a U = (res, U') \<Longrightarrow> frame U U'"
    and run: "get_cell_value_for_evaluator accept reference T = (res, T')"
  shows "frame T T'"
proof (cases "in_bounds T (to_indices reference)")
  case False
  then obtain e where "get_cell T (fst (to_indices reference)) (snd (to_indices reference)) = Inl e"
    using get_cell_out_of_bounds [of T "fst (to_indices reference)" "snd (to_indices reference)"]
    by auto
  then have "T' = T"
    using run
    by (cases "to_indices reference")
       (simp add: get_cell_value_for_evaluator_def get_cell_by_reference_def)
  then show ?thesis by (simp add: frame_refl)
next
  case True
  let ?k = "to_indices reference"
  have g: "get_cell_by_reference T reference = Inr (cell_at T ?k, touch ?k T)"
    using get_cell_in_bounds [of T "fst ?k" "snd ?k"] True
    by (cases "to_indices reference") (simp add: get_cell_by_reference_def)
  have "frame (touch ?k T) T'"
    using run acc
    by (auto simp: get_cell_value_for_evaluator_def g frame_refl
             split: option.splits if_splits)
  then show ?thesis using frame_touch frame_trans by blast
qed

lemma visit_cell_ref_frame:
  assumes acc: "\<And>st' a U res U'. accept st' a U = (res, U') \<Longrightarrow> frame U U'"
    and run: "visit_cell_ref accept st reference T = (res, T')"
  shows "frame T T'"
proof (cases "to_string reference \<in> st")
  case True
  then show ?thesis using run by (simp add: visit_cell_ref_def frame_refl)
next
  case False
  obtain r U where p: "get_cell_value_for_evaluator (accept (insert (to_string reference) st))
                         reference T = (r, U)"
    by (cases "get_cell_value_for_evaluator (accept (insert (to_string reference) st)) reference T")
  have "frame T U" using provider_frame [OF acc p] .
  moreover have "T' = U" using run False p by (simp add: visit_cell_ref_def split: sum.splits)
  ultimately show ?thesis by simp
qed

lemma eval_CellRef:
  "eval fo n st (CellRefNode reference) T =
     visit_cell_ref
       (case n of
          0 \<Rightarrow> (\<lambda>st' a T'. (Inl (RecursionError ''maximum recursion depth exceeded''), T'))
        | Suc m \<Rightarrow> eval fo m)
       st reference T"
  by (cases n) simp_all

lemma eval_frame_step:
  assumes acc: "\<And>st' a U res U'. accept st' a U = (res, U') \<Longrightarrow> frame U U'"
    and cr: "\<And>st reference T. eval fo n st (CellRefNode reference) T
                = visit_cell_ref accept st reference T"
  shows "eval fo n st a T = (res, T') \<Longrightarrow> frame T T'"
proof (induction a arbitrary: T res T')
  case (NumberNode v)
  then show ?case by (simp add: frame_refl)
next
  case (CellRefNode reference)
  then have "visit_cell_ref accept st reference T = (res, T')" by (simp add: cr)
  then show ?case by (rule visit_cell_ref_frame [rotated]) (rule acc)
next
  case (UnaryOpNode op a)
  obtain r U where e: "eval fo n st a T = (r, U)" by (cases "eval fo n st a T")
  have "frame T U" using UnaryOpNode.IH [OF e] .
  moreover have "T' = U" using UnaryOpNode.prems e by (auto split: sum.splits)
  ultimately show ?case by simp
next
  case (BinaryOpNode op l r)
  obtain rl U where el: "eval fo n st l T = (rl, U)" by (cases "eval fo n st l T")
  obtain rr V where er: "eval fo n st r U = (rr, V)" by (cases "eval fo n st r U")
  have fl: "frame T U" using BinaryOpNode.IH(1) [OF el] .
  have fr: "frame U V" using BinaryOpNode.IH(2) [OF er] .
  have "T' = T \<or> T' = U \<or> T' = V"
    using BinaryOpNode.prems el er by (auto split: sum.splits if_splits)
  then show ?case using fl fr frame_refl frame_trans by blast
qed

lemma eval_frame: "eval fo n st a T = (res, T') \<Longrightarrow> frame T T'"
proof (induction n arbitrary: st a T res T')
  case 0
  show ?case
    by (rule eval_frame_step
              [where accept = "\<lambda>st' a T'. (Inl (RecursionError ''maximum recursion depth exceeded''), T')",
               OF _ _ 0])
       (auto simp: frame_refl)
next
  case (Suc n)
  show ?case
    by (rule eval_frame_step [where accept = "eval fo n", OF _ _ Suc.prems])
       (auto intro: Suc.IH)
qed


subsection \<open>Evaluation on similar tables\<close>

lemma provider_sim:
  assumes acc: "\<And>a U1 U2. sim U1 U2 \<Longrightarrow> fst (accept a U1) = fst (accept a U2)"
    and s: "sim T1 T2"
  shows "fst (get_cell_value_for_evaluator accept reference T1)
         = fst (get_cell_value_for_evaluator accept reference T2)"
proof (cases "in_bounds T1 (to_indices reference)")
  case False
  obtain r c where k: "to_indices reference = (r, c)" by (cases "to_indices reference")
  from False k obtain e where "get_cell T1 r c = Inl e" "validate_indices T1 r c = Some e"
    using get_cell_out_of_bounds [of T1 r c] by auto
  moreover from this have "get_cell T2 r c = Inl e"
    using sim_validate [OF s, of r c] by (simp add: get_cell_def)
  ultimately show ?thesis
    by (simp add: get_cell_value_for_evaluator_def get_cell_by_reference_def k)
next
  case True
  let ?k = "to_indices reference"
  let ?c1 = "cell_at T1 ?k" and ?c2 = "cell_at T2 ?k"
  have b2: "in_bounds T2 ?k" using True sim_in_bounds [OF s] by simp
  have g1: "get_cell_by_reference T1 reference = Inr (?c1, touch ?k T1)"
    using get_cell_in_bounds [of T1 "fst ?k" "snd ?k"] True
    by (cases "to_indices reference") (simp add: get_cell_by_reference_def)
  have g2: "get_cell_by_reference T2 reference = Inr (?c2, touch ?k T2)"
    using get_cell_in_bounds [of T2 "fst ?k" "snd ?k"] b2
    by (cases "to_indices reference") (simp add: get_cell_by_reference_def)
  have st: "sim (touch ?k T1) (touch ?k T2)"
    using s frame_touch sim_frame by blast
  have q: "cell_eqv ?c1 ?c2" using s by (rule sim_cell)
  have er: "error ?c1 = error ?c2" using q by (simp add: cell_eqv_def)
  have em: "is_empty ?c1 = is_empty ?c2" using q by (rule eqv_is_empty)
  show ?thesis
  proof (cases "error ?c1")
    case (Some err)
    then show ?thesis using er by (simp add: get_cell_value_for_evaluator_def g1 g2)
  next
    case None
    show ?thesis
    proof (cases "is_empty ?c1")
      case True
      then show ?thesis using None er em by (simp add: get_cell_value_for_evaluator_def g1 g2)
    next
      case False
      then have ex: "expression ?c1 = expression ?c2" and as: "ast ?c1 = ast ?c2"
        using q em by (auto simp: cell_eqv_def)
      have li: "is_literal ?c1 = is_literal ?c2" using q by (rule eqv_is_literal)
      have fo: "is_formula ?c1 = is_formula ?c2" using q by (rule eqv_is_formula)
      have ac: "fst (accept a (touch ?k T1)) = fst (accept a (touch ?k T2))" for a
        using acc [OF st] .
      show ?thesis
        using None er em False ex as li fo ac
        by (simp add: get_cell_value_for_evaluator_def g1 g2 split: option.splits)
    qed
  qed
qed

lemma visit_cell_ref_sim:
  assumes acc: "\<And>st' a U1 U2. sim U1 U2 \<Longrightarrow> fst (accept st' a U1) = fst (accept st' a U2)"
    and s: "sim T1 T2"
  shows "fst (visit_cell_ref accept st reference T1) = fst (visit_cell_ref accept st reference T2)"
proof (cases "to_string reference \<in> st")
  case True
  then show ?thesis by (simp add: visit_cell_ref_def)
next
  case False
  have "fst (get_cell_value_for_evaluator (accept (insert (to_string reference) st)) reference T1)
        = fst (get_cell_value_for_evaluator (accept (insert (to_string reference) st)) reference T2)"
    by (rule provider_sim [OF acc s])
  then show ?thesis
    using False by (auto simp: visit_cell_ref_def Let_def split: prod.splits sum.splits)
qed

lemma eval_sim_step:
  assumes acc: "\<And>st' a U1 U2. sim U1 U2 \<Longrightarrow> fst (accept st' a U1) = fst (accept st' a U2)"
    and cr: "\<And>st reference T. eval fo n st (CellRefNode reference) T
                = visit_cell_ref accept st reference T"
  shows "sim T1 T2 \<Longrightarrow> fst (eval fo n st a T1) = fst (eval fo n st a T2)"
proof (induction a arbitrary: T1 T2)
  case (NumberNode v)
  then show ?case by simp
next
  case (CellRefNode reference)
  then show ?case using visit_cell_ref_sim [where accept = accept] acc by (simp add: cr)
next
  case (UnaryOpNode op a)
  then have "fst (eval fo n st a T1) = fst (eval fo n st a T2)" by simp
  then show ?case by (auto split: prod.splits sum.splits)
next
  case (BinaryOpNode op l r)
  obtain r1 U1 where e1: "eval fo n st l T1 = (r1, U1)" by (cases "eval fo n st l T1")
  obtain r2 U2 where e2: "eval fo n st l T2 = (r2, U2)" by (cases "eval fo n st l T2")
  have rl: "r1 = r2" using BinaryOpNode.IH(1) [OF BinaryOpNode.prems] e1 e2 by simp
  have "sim U1 U2"
    using BinaryOpNode.prems eval_frame [OF e1] eval_frame [OF e2] sim_frame by blast
  then have rr: "fst (eval fo n st r U1) = fst (eval fo n st r U2)"
    by (rule BinaryOpNode.IH(2))
  show ?case
    using e1 e2 rl rr by (auto split: prod.splits sum.splits)
qed

lemma eval_sim: "sim T1 T2 \<Longrightarrow> fst (eval fo n st a T1) = fst (eval fo n st a T2)"
proof (induction n arbitrary: st a T1 T2)
  case 0
  show ?case
    by (rule eval_sim_step
              [where accept = "\<lambda>st' a T'. (Inl (RecursionError ''maximum recursion depth exceeded''), T')",
               OF _ _ 0])
       auto
next
  case (Suc n)
  show ?case
    by (rule eval_sim_step [where accept = "eval fo n", OF _ _ Suc.prems])
       (auto intro: Suc.IH)
qed

lemma evaluate_frame: "evaluate fo n a cur T = (res, T') \<Longrightarrow> frame T T'"
  by (auto simp: evaluate_def split: prod.splits sum.splits if_splits dest: eval_frame)

lemma evaluate_sim: "sim T1 T2 \<Longrightarrow> fst (evaluate fo n a cur T1) = fst (evaluate fo n a cur T2)"
  using eval_sim [of T1 T2 fo n "case cur of None \<Rightarrow> {} | Some c \<Rightarrow> {to_string c}" a]
  by (auto simp: evaluate_def split: prod.splits sum.splits)

subsection \<open>One cell of the pass\<close>

lemma map_of_modify_cell:
  "map_of (cells (modify_cell k f T)) k' =
     (if k' = k then map_option f (map_of (cells T) k) else map_of (cells T) k')"
  by (simp add: modify_cell_def map_of_map_entry split: option.splits)

lemma cell_at_modify_cell:
  "map_of (cells T) k = Some c \<Longrightarrow>
   cell_at (modify_cell k f T) k' = (if k' = k then f c else cell_at T k')"
  by (simp add: cell_at_def map_of_modify_cell)

lemma dims_modify_cell: "rows (modify_cell k f T) = rows T \<and> columns (modify_cell k f T) = columns T"
  by (simp add: modify_cell_def)

definition failed :: "error \<Rightarrow> 'f cell \<Rightarrow> 'f cell" where
  "failed e cell = set_cached_value None (set_error (Some (stored_message e)) cell)"

definition succeeded :: "'f pyval \<Rightarrow> 'f cell \<Rightarrow> 'f cell" where
  "succeeded v cell = set_error None (set_cached_value (Some v) cell)"

lemma failed_fun:
  "(\<lambda>cell. set_cached_value None (set_error (Some (stored_message e)) cell)) = failed e"
  by (rule ext) (simp add: failed_def)

lemma succeeded_fun:
  "(\<lambda>cell. set_error None (set_cached_value (Some v) cell)) = succeeded v"
  by (rule ext) (simp add: succeeded_def)

definition outcome :: "'f float_ops \<Rightarrow> nat \<Rightarrow> int \<Rightarrow> int \<Rightarrow> 'f table \<Rightarrow> 'f cell" where
  "outcome fo n r c T =
     (let cell = cell_at T (r, c) in
      if is_empty cell then cell
      else case ast cell of
             None \<Rightarrow> cell
           | Some a \<Rightarrow>
               (case from_indices r c of
                  Inl e \<Rightarrow> failed e cell
                | Inr current_ref \<Rightarrow>
                    (case fst (evaluate fo n a (Some current_ref) (touch (r, c) T)) of
                       Inr v \<Rightarrow> succeeded v cell
                     | Inl e \<Rightarrow> failed e cell)))"

lemma calculate_cell_effect:
  assumes b: "in_bounds T (r, c)"
  shows "\<exists>T'. calculate_cell fo n r c T = Inr T'
              \<and> rows T' = rows T \<and> columns T' = columns T
              \<and> (\<forall>k. k \<noteq> (r, c) \<longrightarrow> cell_at T' k = cell_at T k)
              \<and> cell_at T' (r, c) = outcome fo n r c T"
proof -
  let ?k = "(r, c)"
  let ?cell = "cell_at T ?k"
  let ?U = "touch ?k T"
  have g: "get_cell T r c = Inr (?cell, ?U)" using b by (rule get_cell_in_bounds)
  have fU: "frame T ?U" by (rule frame_touch)
  have pU: "map_of (cells ?U) ?k = Some ?cell" by (rule map_of_touch)
  have keep: "\<exists>T'. X = Inr T' \<and> rows T' = rows T \<and> columns T' = columns T
              \<and> (\<forall>k. k \<noteq> ?k \<longrightarrow> cell_at T' k = cell_at T k) \<and> cell_at T' ?k = f ?cell"
    if fr: "frame ?U V" and X: "X = Inr (modify_cell ?k f V)" for X V f
  proof -
    have fT: "frame T V" using fU fr by (rule frame_trans)
    have "map_of (cells V) ?k = Some ?cell" using fr pU by (rule frame_present)
    then have "cell_at (modify_cell ?k f V) k' = (if k' = ?k then f ?cell else cell_at T k')" for k'
      using cell_at_modify_cell [of V ?k ?cell f k'] frame_cell_at [OF fT] by simp
    then show ?thesis
      using X frame_dims [OF fT] by (simp add: dims_modify_cell)
  qed
  show ?thesis
  proof (cases "is_empty ?cell \<or> ast ?cell = None")
    case True
    then have "calculate_cell fo n r c T = Inr ?U"
      by (auto simp: calculate_cell_def g split: option.splits)
    moreover have "outcome fo n r c T = ?cell"
      using True by (auto simp: outcome_def Let_def split: option.splits)
    ultimately show ?thesis
      using frame_dims [OF fU] frame_cell_at [OF fU] by simp
  next
    case False
    then obtain a where ne: "\<not> is_empty ?cell" and a: "ast ?cell = Some a" by auto
    show ?thesis
    proof (cases "from_indices r c")
      case (Inl e)
      have cc: "calculate_cell fo n r c T = Inr (modify_cell ?k (failed e) ?U)"
        using ne a Inl by (simp add: calculate_cell_def g record_failure_def failed_fun)
      have oo: "outcome fo n r c T = failed e ?cell"
        using ne a Inl by (simp add: outcome_def)
      show ?thesis using keep [OF frame_refl cc] by (simp add: oo)
    next
      case (Inr current_ref)
      obtain res V where ev: "evaluate fo n a (Some current_ref) ?U = (res, V)"
        by (cases "evaluate fo n a (Some current_ref) ?U")
      have fV: "frame ?U V" using ev by (rule evaluate_frame)
      show ?thesis
      proof (cases res)
        case (Inl e)
        have cc: "calculate_cell fo n r c T = Inr (modify_cell ?k (failed e) V)"
          using ne a Inr ev Inl
          by (simp add: calculate_cell_def g record_failure_def failed_fun)
        have oo: "outcome fo n r c T = failed e ?cell"
          using ne a Inr ev Inl by (simp add: outcome_def)
        show ?thesis using keep [OF fV cc] by (simp add: oo)
      next
        case (Inr v)
        have cc: "calculate_cell fo n r c T = Inr (modify_cell ?k (succeeded v) V)"
          using ne a \<open>from_indices r c = Inr current_ref\<close> ev Inr
          by (simp add: calculate_cell_def g succeeded_fun)
        have oo: "outcome fo n r c T = succeeded v ?cell"
          using ne a \<open>from_indices r c = Inr current_ref\<close> ev Inr by (simp add: outcome_def)
        show ?thesis using keep [OF fV cc] by (simp add: oo)
      qed
    qed
  qed
qed

lemma outcome_keeps:
  "expression (outcome fo n r c T) = expression (cell_at T (r, c))
   \<and> ast (outcome fo n r c T) = ast (cell_at T (r, c))"
  by (auto simp: outcome_def failed_def succeeded_def set_error_def set_cached_value_def Let_def
           split: option.splits sum.splits)

lemma outcome_sim:
  assumes s: "sim T1 T2"
  shows "error (outcome fo n r c T1) = error (outcome fo n r c T2)
         \<and> (\<not> is_empty (cell_at T1 (r, c)) \<and> ast (cell_at T1 (r, c)) \<noteq> None \<longrightarrow>
              cached_value (outcome fo n r c T1) = cached_value (outcome fo n r c T2))"
proof -
  let ?k = "(r, c)"
  let ?c1 = "cell_at T1 ?k" and ?c2 = "cell_at T2 ?k"
  have q: "cell_eqv ?c1 ?c2" using s by (rule sim_cell)
  have er: "error ?c1 = error ?c2" using q by (simp add: cell_eqv_def)
  have em: "is_empty ?c1 = is_empty ?c2" using q by (rule eqv_is_empty)
  have st: "sim (touch ?k T1) (touch ?k T2)" using s frame_touch sim_frame by blast
  show ?thesis
  proof (cases "is_empty ?c1")
    case True
    then show ?thesis using er em by (simp add: outcome_def)
  next
    case False
    then have as: "ast ?c1 = ast ?c2" using q em by (auto simp: cell_eqv_def)
    have ev: "fst (evaluate fo n a cur (touch ?k T1)) = fst (evaluate fo n a cur (touch ?k T2))"
      for a cur
      using st by (rule evaluate_sim)
    show ?thesis
      using False em er as ev
      by (auto simp: outcome_def failed_def succeeded_def set_error_def set_cached_value_def
               Let_def split: option.splits sum.splits)
  qed
qed

subsection \<open>The pass\<close>

definition pending :: "'f table \<Rightarrow> int \<times> int \<Rightarrow> bool" where
  "pending T k = (is_formula (cell_at T k) \<and> ast (cell_at T k) \<noteq> None)"

definition agree :: "'f table \<Rightarrow> 'f table \<Rightarrow> int \<times> int \<Rightarrow> bool" where
  "agree T1 T2 k = (cached_value (cell_at T1 k) = cached_value (cell_at T2 k))"

definition key :: "int \<times> int \<times> 'a \<Rightarrow> int \<times> int" where
  "key x = (fst x, fst (snd x))"

lemma key_simp: "key (r, c, s) = (r, c)"
  by (simp add: key_def)

lemma blank_not_formula: "\<not> is_formula (Cell [])"
  by (simp add: is_formula_def Cell_def py_strip_def)

lemma loop_test:
  "(case map_of (cells T) (r, c) of
      Some cell \<Rightarrow> is_formula cell \<and> ast cell \<noteq> None
    | None \<Rightarrow> False) = pending T (r, c)"
  by (simp add: pending_def cell_at_def blank_not_formula split: option.splits)

lemma pending_sim:
  assumes "sim T1 T2"
  shows "pending T1 k = pending T2 k"
proof -
  have q: "cell_eqv (cell_at T1 k) (cell_at T2 k)" using assms by (rule sim_cell)
  show ?thesis
  proof (cases "is_empty (cell_at T1 k)")
    case True
    then have "is_empty (cell_at T2 k)" using eqv_is_empty [OF q] by simp
    then show ?thesis using True empty_not_formula by (auto simp: pending_def)
  next
    case False
    then have "expression (cell_at T1 k) = expression (cell_at T2 k)"
      and "ast (cell_at T1 k) = ast (cell_at T2 k)"
      using q by (auto simp: cell_eqv_def)
    then show ?thesis by (simp add: pending_def is_formula_def)
  qed
qed

lemma calculate_cells_sim:
  assumes "sim T1 T2"
    and "map key xs1 = map key xs2"
    and "\<forall>x \<in> set xs1. in_bounds T1 (key x)"
    and "\<forall>k. agree T1 T2 k \<or> (k \<in> key ` set xs1 \<and> pending T1 k)"
  shows "\<exists>T1' T2'. calculate_cells fo n xs1 T1 = Inr T1' \<and> calculate_cells fo n xs2 T2 = Inr T2'
           \<and> sim T1' T2' \<and> (\<forall>k. agree T1' T2' k)
           \<and> (\<forall>k. expression (cell_at T1' k) = expression (cell_at T1 k))
           \<and> (\<forall>k. expression (cell_at T2' k) = expression (cell_at T2 k))
           \<and> rows T1' = rows T1 \<and> columns T1' = columns T1"
  using assms
proof (induction xs1 arbitrary: xs2 T1 T2)
  case Nil
  then show ?case by (auto simp: agree_def)
next
  case (Cons x xs1)
  obtain r c s1 where x: "x = (r, c, s1)" by (cases x)
  obtain y ys where xs2: "xs2 = y # ys" and ky: "key y = (r, c)" and kr: "map key xs1 = map key ys"
    using Cons.prems(2) x by (cases xs2) (auto simp: key_simp)
  obtain s2 where y: "y = (r, c, s2)" using ky by (cases y) (auto simp: key_simp)
  have b1: "in_bounds T1 (r, c)" using Cons.prems(3) x by (simp add: key_simp)
  have b2: "in_bounds T2 (r, c)" using b1 sim_in_bounds [OF Cons.prems(1)] by simp
  have pe: "pending T1 (r, c) = pending T2 (r, c)" using Cons.prems(1) by (rule pending_sim)
  show ?case
  proof (cases "pending T1 (r, c)")
    case False
    have a0: "\<forall>k. agree T1 T2 k \<or> (k \<in> key ` set xs1 \<and> pending T1 k)"
      using Cons.prems(4) False x by (auto simp: key_simp)
    have b0: "\<forall>x \<in> set xs1. in_bounds T1 (key x)" using Cons.prems(3) by simp
    from Cons.IH [OF Cons.prems(1) kr b0 a0]
    show ?thesis using False pe by (simp add: x xs2 y loop_test)
  next
    case True
    obtain T1' where c1: "calculate_cell fo n r c T1 = Inr T1'"
      and d1: "rows T1' = rows T1" "columns T1' = columns T1"
      and o1: "\<forall>k. k \<noteq> (r, c) \<longrightarrow> cell_at T1' k = cell_at T1 k"
      and h1: "cell_at T1' (r, c) = outcome fo n r c T1"
      using calculate_cell_effect [OF b1, of fo n] by blast
    obtain T2' where c2: "calculate_cell fo n r c T2 = Inr T2'"
      and d2: "rows T2' = rows T2" "columns T2' = columns T2"
      and o2: "\<forall>k. k \<noteq> (r, c) \<longrightarrow> cell_at T2' k = cell_at T2 k"
      and h2: "cell_at T2' (r, c) = outcome fo n r c T2"
      using calculate_cell_effect [OF b2, of fo n] by blast
    have ne: "\<not> is_empty (cell_at T1 (r, c))" "ast (cell_at T1 (r, c)) \<noteq> None"
      using True empty_not_formula by (auto simp: pending_def)
    note os = outcome_sim [OF Cons.prems(1), of fo n r c]
    note k1 = outcome_keeps [of fo n r c T1]
    note k2 = outcome_keeps [of fo n r c T2]
    have q0: "cell_eqv (cell_at T1 (r, c)) (cell_at T2 (r, c))"
      using Cons.prems(1) by (rule sim_cell)
    have q: "cell_eqv (cell_at T1' k) (cell_at T2' k)" for k
    proof (cases "k = (r, c)")
      case True
      then show ?thesis
        using h1 h2 os k1 k2 q0 by (auto simp: cell_eqv_def is_empty_def)
    next
      case False
      then show ?thesis
        using o1 [rule_format, OF False] o2 [rule_format, OF False]
          sim_cell [OF Cons.prems(1), of k]
        by simp
    qed
    have s': "sim T1' T2'"
      using Cons.prems(1) d1 d2 q by (simp add: sim_def)
    have ex1: "expression (cell_at T1' k) = expression (cell_at T1 k)" for k
      using o1 [rule_format, of k] h1 k1 by (cases "k = (r, c)") simp_all
    have ex2: "expression (cell_at T2' k) = expression (cell_at T2 k)" for k
      using o2 [rule_format, of k] h2 k2 by (cases "k = (r, c)") simp_all
    have as1: "ast (cell_at T1' k) = ast (cell_at T1 k)" for k
      using o1 [rule_format, of k] h1 k1 by (cases "k = (r, c)") simp_all
    have pk: "pending T1' k = pending T1 k" for k
      using ex1 [of k] as1 [of k] by (simp add: pending_def is_formula_def)
    have a': "\<forall>k. agree T1' T2' k \<or> (k \<in> key ` set xs1 \<and> pending T1' k)"
    proof
      fix k
      show "agree T1' T2' k \<or> (k \<in> key ` set xs1 \<and> pending T1' k)"
      proof (cases "k = (r, c)")
        case True
        then show ?thesis using h1 h2 os ne by (simp add: agree_def)
      next
        case False
        then show ?thesis
          using Cons.prems(4) [rule_format, of k] o1 [rule_format, OF False]
            o2 [rule_format, OF False] pk [of k] x
          by (auto simp: agree_def key_simp)
      qed
    qed
    have b': "\<forall>x \<in> set xs1. in_bounds T1' (key x)"
      using Cons.prems(3) d1 by (simp add: in_bounds_def)
    from Cons.IH [OF s' kr b' a']
    show ?thesis using True pe c1 c2 ex1 ex2 d1 by (simp add: x xs2 y loop_test)
  qed
qed

subsection \<open>Assignment of an expression\<close>

lemma set_cell_expression_assign:
  assumes "get_cell T r c = Inr (c0, T1)"
  shows "\<exists>res. set_cell_expression r c e T = Inr (res, modify_cell (r, c) (\<lambda>x. assign e c0) T1)"
  using assms
  by (auto simp: set_cell_expression_def assign_def Let_def split: sum.splits)

lemma expression_set_expression: "expression (set_expression e c0) = e"
  by (simp add: set_expression_def invalidate_def)

lemma expression_assign: "expression (assign e c0) = e"
  using expression_set_expression [of e c0]
  by (auto simp: assign_def Let_def set_error_def set_cached_value_def set_ast_def
           split: sum.splits)

lemma cached_assigned: "cached_value (assigned e) = None"
  by (auto simp: assigned_def assign_def Let_def set_error_def set_cached_value_def set_ast_def
        set_expression_def invalidate_def Cell_def split: sum.splits)

lemma is_empty_assigned: "is_empty (assigned e :: 'f cell) = (py_strip e = [])"
  by (simp add: is_empty_def assigned_def expression_assign)

lemma is_empty_assigned_expression:
  "is_empty (assigned (expression c) :: 'f cell) = is_empty (c :: 'f cell)"
  by (simp add: is_empty_assigned, simp add: is_empty_def)

lemma blank_empty: "is_empty (Cell [])"
  by (simp add: is_empty_def Cell_def py_strip_def)

lemma ast_assigned_formula:
  "ast (assigned e :: 'f cell) \<noteq> None \<Longrightarrow> startswith (py_strip e) ''=''"
  using expression_set_expression [of e "Cell [] :: 'f cell"]
  by (auto simp: assigned_def assign_def Let_def set_error_def set_cached_value_def set_ast_def
        set_expression_def invalidate_def Cell_def is_formula_def
        split: sum.splits if_splits)

subsection \<open>Well-formed and settled tables\<close>

lemma blank_settled: "settled_cell (Cell [])"
  by (simp add: settled_cell_def is_empty_def Cell_def py_strip_def)

lemma settled_cell_at: "settled T \<Longrightarrow> settled_cell (cell_at T k)"
  by (auto simp: settled_def cell_at_def blank_settled split: option.splits
           dest!: map_of_SomeD)

subsection \<open>Loading a snapshot into a new table\<close>

lemma map_entry_append_new:
  "map_of xs k = None \<Longrightarrow> AList.map_entry k f (xs @ [(k, v)]) = xs @ [(k, f v)]"
  by (induction xs) (auto split: if_splits)

lemma set_cell_expression_new:
  assumes b: "in_bounds U (r, c)" and n: "map_of (cells U) (r, c) = None"
  shows "\<exists>res. set_cell_expression r c e U
                 = Inr (res, U\<lparr>cells := cells U @ [((r, c), assigned e)]\<rparr>)"
proof -
  have g: "get_cell U r c = Inr (Cell [], U\<lparr>cells := cells U @ [((r, c), Cell [])]\<rparr>)"
    using get_cell_in_bounds [OF b] n by (simp add: cell_at_def touch_def)
  have "modify_cell (r, c) (\<lambda>x. assign e (Cell [])) (U\<lparr>cells := cells U @ [((r, c), Cell [])]\<rparr>)
          = U\<lparr>cells := cells U @ [((r, c), assigned e)]\<rparr>"
    using n by (simp add: modify_cell_def map_entry_append_new assigned_def)
  then show ?thesis using set_cell_expression_assign [OF g, of e] by simp
qed

definition entry :: "int \<times> int \<times> string \<Rightarrow> (int \<times> int) \<times> 'f cell" where
  "entry x = (key x, assigned (snd (snd x)))"

lemma set_cell_expressions_new:
  assumes "distinct (map key E)"
    and "\<forall>x \<in> set E. in_bounds U (key x) \<and> map_of (cells U) (key x) = None"
  shows "set_cell_expressions E U = Inr (U\<lparr>cells := cells U @ map entry E\<rparr>)"
  using assms
proof (induction E arbitrary: U)
  case Nil
  then show ?case by simp
next
  case (Cons x E)
  obtain r c e where x: "x = (r, c, e)" by (cases x)
  let ?U = "U\<lparr>cells := cells U @ [((r, c), assigned e)]\<rparr>"
  obtain res where s: "set_cell_expression r c e U = Inr (res, ?U)"
    using set_cell_expression_new [of U r c e] Cons.prems(2) x by (auto simp: key_simp)
  have d: "distinct (map key E)" using Cons.prems(1) by simp
  have "\<forall>y \<in> set E. in_bounds ?U (key y) \<and> map_of (cells ?U) (key y) = None"
  proof
    fix y assume y: "y \<in> set E"
    then have "key y \<noteq> (r, c)" using Cons.prems(1) x by (force simp: key_simp)
    then show "in_bounds ?U (key y) \<and> map_of (cells ?U) (key y) = None"
      using Cons.prems(2) y by (auto simp: in_bounds_def map_add_def split: option.splits)
  qed
  from Cons.IH [OF d this]
  show ?case using s by (simp add: x entry_def key_simp)
qed

lemma export_cells:
  "data_cells (get_table_data_for_export T)
     = map (\<lambda>(k, cell). (fst k, snd k, expression cell))
         (filter (\<lambda>(k, cell). \<not> is_empty cell) (cells T))"
proof -
  have "map (\<lambda>(r, c, cell). (r, c, expression cell))
          (filter (\<lambda>(r, c, cell). \<not> is_empty cell)
             (map (\<lambda>((r, c), cell). (r, c, cell))
                (filter (\<lambda>((r, c), cell). \<not> is_empty cell) xs)))
        = map (\<lambda>(k, cell). (fst k, snd k, expression cell))
            (filter (\<lambda>(k, cell). \<not> is_empty cell) xs)" for xs :: "((int \<times> int) \<times> 'a cell) list"
    by (induction xs) auto
  then show ?thesis by (simp add: get_table_data_for_export_def get_all_cells_def)
qed

text \<open>The table that \<open>load_table_data\<close> builds before its pass.\<close>

definition reloaded :: "'f table \<Rightarrow> 'f table" where
  "reloaded T =
     \<lparr>rows = rows T, columns = columns T,
      cells = map (\<lambda>(k, cell). (k, assigned (expression cell)))
                (filter (\<lambda>(k, cell). \<not> is_empty cell) (cells T))\<rparr>"

lemma load_reloaded:
  assumes w: "well_formed T"
  shows "load_table_data fo n (get_table_data_for_export T) = calculate_all fo n (reloaded T)"
proof -
  let ?E = "data_cells (get_table_data_for_export T)"
  let ?U = "\<lparr>rows = rows T, columns = columns T, cells = []\<rparr> :: 'a table"
  have t: "Table (rows T) (columns T) = Inr ?U"
    using w by (simp add: Table_def well_formed_def)
  have k: "map key ?E = map fst (filter (\<lambda>(k, cell). \<not> is_empty cell) (cells T))"
    by (simp add: export_cells key_def case_prod_beta cong: map_cong)
  have d: "distinct (map key ?E)"
    using w unfolding k well_formed_def by (simp add: distinct_map_filter)
  have b: "\<forall>x \<in> set ?E. in_bounds ?U (key x) \<and> map_of (cells ?U) (key x) = None"
  proof
    fix x assume "x \<in> set ?E"
    then have "key x \<in> set (map key ?E)" by simp
    then have "key x \<in> set (map fst (cells T))" unfolding k by auto
    then have "in_bounds T (key x)" using w by (auto simp: well_formed_def)
    then show "in_bounds ?U (key x) \<and> map_of (cells ?U) (key x) = None"
      by (simp add: in_bounds_def)
  qed
  have m: "map entry ?E = cells (reloaded T)"
    by (simp add: export_cells reloaded_def entry_def key_def case_prod_beta)
  have "set_cell_expressions ?E ?U = Inr (reloaded T)"
    using set_cell_expressions_new [OF d b] m by (simp add: reloaded_def)
  then show ?thesis
    by (simp add: load_table_data_def get_table_data_for_export_def t)
qed

lemma map_of_reloaded_list:
  "distinct (map fst xs) \<Longrightarrow>
   map_of (map (\<lambda>(k, cell). (k, f cell)) (filter (\<lambda>(k, cell). P cell) xs)) k
     = (case map_of xs k of
          None \<Rightarrow> None
        | Some cell \<Rightarrow> if P cell then Some (f cell) else None)"
proof (induction xs)
  case Nil
  then show ?case by simp
next
  case (Cons x xs)
  obtain k0 c0 where x: "x = (k0, c0)" by (cases x)
  have n: "map_of xs k0 = None"
    using Cons.prems x by (simp add: map_of_eq_None_iff)
  show ?case
    using Cons x n by (auto split: option.splits)
qed

lemma cell_at_reloaded:
  assumes "well_formed T"
  shows "cell_at (reloaded T) k
           = (if is_empty (cell_at T k) then Cell [] else assigned (expression (cell_at T k)))"
proof -
  have "distinct (map fst (cells T))" using assms by (simp add: well_formed_def)
  from map_of_reloaded_list [OF this, of "\<lambda>cell. assigned (expression cell)"
                                "\<lambda>cell. \<not> is_empty cell" k]
  have m: "map_of (cells (reloaded T)) k
             = (case map_of (cells T) k of
                  None \<Rightarrow> None
                | Some cell \<Rightarrow>
                    if \<not> is_empty cell then Some (assigned (expression cell)) else None)"
    by (simp add: reloaded_def)
  show ?thesis
    by (cases "map_of (cells T) k") (simp_all add: cell_at_def m blank_empty)
qed

lemma keys_reloaded:
  "map key (get_all_cells (reloaded T)) = map key (get_all_cells T)"
proof -
  have "map key (map (\<lambda>((r, c), cell). (r, c, cell))
           (filter (\<lambda>((r, c), cell). \<not> is_empty cell)
              (map (\<lambda>(k, cell). (k, assigned (expression cell) :: 'a cell))
                 (filter (\<lambda>(k, cell). \<not> is_empty cell) xs))))
        = map key (map (\<lambda>((r, c), cell). (r, c, cell))
            (filter (\<lambda>((r, c), cell). \<not> is_empty cell) xs))"
    for xs :: "((int \<times> int) \<times> 'a cell) list"
    by (induction xs) (auto simp: is_empty_assigned_expression key_simp)
  then show ?thesis by (simp add: get_all_cells_def reloaded_def)
qed

subsection \<open>The loaded table against the original\<close>

lemma reloaded_sim:
  assumes w: "well_formed T" and s: "settled T"
  shows "sim T (reloaded T)"
proof -
  have "cell_eqv (cell_at T k) (cell_at (reloaded T) k)" for k
    using settled_cell_at [OF s, of k] cell_at_reloaded [OF w, of k]
    by (auto simp: cell_eqv_def settled_cell_def expression_assign assigned_def Cell_def
                   is_empty_def py_strip_def)
  then show ?thesis by (simp add: sim_def reloaded_def)
qed

lemma reloaded_agree:
  assumes w: "well_formed T" and s: "settled T"
  shows "agree T (reloaded T) k \<or> (k \<in> key ` set (get_all_cells T) \<and> pending T k)"
proof (cases "cached_value (cell_at T k) = None")
  case True
  then show ?thesis
    using cell_at_reloaded [OF w, of k] by (simp add: agree_def cached_assigned Cell_def)
next
  case False
  note sc = settled_cell_at [OF s, of k]
  have ne: "\<not> is_empty (cell_at T k)" using sc False by (auto simp: settled_cell_def)
  then have sc': "ast (cell_at T k) = ast (assigned (expression (cell_at T k)) :: 'a cell)
                  \<and> (cached_value (cell_at T k) = None \<or> ast (cell_at T k) \<noteq> None)"
    using sc by (auto simp: settled_cell_def)
  have a: "ast (cell_at T k) \<noteq> None" using sc' False by blast
  have ae: "ast (cell_at T k) = ast (assigned (expression (cell_at T k)) :: 'a cell)"
    using sc' by blast
  have f: "is_formula (cell_at T k)"
    using ast_assigned_formula [of "expression (cell_at T k)"] a ae
    by (simp add: is_formula_def)
  obtain cell where m: "map_of (cells T) k = Some cell" and c: "cell = cell_at T k"
    using ne by (cases "map_of (cells T) k")
                (auto simp: cell_at_def is_empty_def Cell_def py_strip_def)
  obtain r0 c0 where k: "k = (r0, c0)" by (cases k)
  have "((r0, c0), cell) \<in> set (cells T)" using m k by (auto dest: map_of_SomeD)
  then have "((r0, c0), cell) \<in> set (filter (\<lambda>((r, c), cell). \<not> is_empty cell) (cells T))"
    using ne c by simp
  then have "(\<lambda>((r, c), cell). (r, c, cell)) ((r0, c0), cell) \<in> set (get_all_cells T)"
    unfolding get_all_cells_def set_map by (rule imageI)
  then have "key (r0, c0, cell) \<in> key ` set (get_all_cells T)" by simp
  then have "k \<in> key ` set (get_all_cells T)" by (simp add: key_simp k)
  then show ?thesis using f a by (simp add: pending_def)
qed

lemma all_cells_in_bounds:
  assumes "well_formed T"
  shows "\<forall>x \<in> set (get_all_cells T). in_bounds T (key x)"
  using assms by (force simp: well_formed_def get_all_cells_def key_simp)

text \<open>
  Claim C8: the table loaded from the exported snapshot holds, after its pass, the cached
  value or error that the original holds after a pass. The code breaks this where the
  original still holds an error of an earlier pass: \<open>calculate_all\<close>, whose docstring
  promises the order of the dependencies, takes the cells in the order of the dictionary.
  A1 = \<open>=B1\<close>, B1 = \<open>=C1\<close> and C1 = \<open>x\<close> are set and evaluated, which leaves errors on
  A1 and B1; then C1 is set to \<open>5\<close>. In this state the pass evaluates A1 before B1, finds
  the error still stored on B1 and records an error on A1, while the table loaded from the
  exported snapshot evaluates A1 to 5.
\<close>

theorem stale_error_breaks_roundtrip:
  "(case set_cell_expressions [(0, 0, ''=B1''), (0, 1, ''=C1''), (0, 2, ''x'')]
          (\<lparr>rows = 3, columns = 3, cells = []\<rparr> :: unit table) of
      Inr T1 \<Rightarrow>
        (case calculate_all unit_ops 5 T1 of
           Inr T2 \<Rightarrow>
             (case set_cell_expression 0 2 ''5'' T2 of
                Inr (res, S) \<Rightarrow>
                  (case (calculate_all unit_ops 5 S,
                         load_table_data unit_ops 5 (get_table_data_for_export S)) of
                     (Inr T_orig, Inr T_load) \<Rightarrow>
                       Some (well_formed S,
                             cached_value (cell_at T_orig (0, 0)),
                             error (cell_at T_orig (0, 0)),
                             cached_value (cell_at T_load (0, 0)),
                             error (cell_at T_load (0, 0)))
                   | other \<Rightarrow> None)
              | Inl e \<Rightarrow> None)
         | Inl e \<Rightarrow> None)
    | Inl e \<Rightarrow> None)
   = Some (True, None,
           Some ''Error getting the value of cell B1: Cell B1 has an error: Error getting the value of cell C1: Cell C1 holds a non-numeric value: x'',
           Some (VInt 5), None)"
  by code_simp

theorem stale_error_breaks_roundtrip_witness:
  "\<exists>T1 T2 res S T_orig T_load.
     set_cell_expressions [(0, 0, ''=B1''), (0, 1, ''=C1''), (0, 2, ''x'')]
       (\<lparr>rows = 3, columns = 3, cells = []\<rparr> :: unit table) = Inr T1
     \<and> calculate_all unit_ops 5 T1 = Inr T2
     \<and> set_cell_expression 0 2 ''5'' T2 = Inr (res, S)
     \<and> well_formed S
     \<and> calculate_all unit_ops 5 S = Inr T_orig
     \<and> load_table_data unit_ops 5 (get_table_data_for_export S) = Inr T_load
     \<and> cached_value (cell_at T_orig (0, 0)) = None
     \<and> error (cell_at T_orig (0, 0)) \<noteq> None
     \<and> cached_value (cell_at T_load (0, 0)) = Some (VInt 5)
     \<and> error (cell_at T_load (0, 0)) = None"
  using stale_error_breaks_roundtrip
  by (auto split: sum.splits prod.splits)

text \<open>
  Where no cell holds the result of an earlier evaluation the order does not show: for
  every well-formed, settled table, both the evaluation pass on the table and the load of
  its exported snapshot succeed; the snapshot lists exactly the non-empty cells with their
  expressions; the loaded table has the same dimensions; every position holds the same
  expression as before, or is empty in both; and after the passes every position holds the
  same cached value and the same error in the loaded table as in the original.
\<close>

theorem export_load_roundtrip:
  assumes w: "well_formed T" and s: "settled T"
  shows "\<exists>T_orig T_load.
           calculate_all fo n T = Inr T_orig
           \<and> load_table_data fo n (get_table_data_for_export T) = Inr T_load
           \<and> data_cells (get_table_data_for_export T)
               = map (\<lambda>(k, cell). (fst k, snd k, expression cell))
                   (filter (\<lambda>(k, cell). \<not> is_empty cell) (cells T))
           \<and> rows T_load = rows T \<and> columns T_load = columns T
           \<and> (\<forall>k. is_empty (cell_at T k) \<and> is_empty (cell_at T_load k)
                   \<or> expression (cell_at T_load k) = expression (cell_at T k))
           \<and> (\<forall>k. cached_value (cell_at T_load k) = cached_value (cell_at T_orig k)
                   \<and> error (cell_at T_load k) = error (cell_at T_orig k))"
proof -
  have a: "\<forall>k. agree T (reloaded T) k \<or> (k \<in> key ` set (get_all_cells T) \<and> pending T k)"
    using reloaded_agree [OF w s] by blast
  from calculate_cells_sim
         [OF reloaded_sim [OF w s] keys_reloaded [symmetric] all_cells_in_bounds [OF w] a,
          of fo n]
  obtain T1 T2 where c1: "calculate_cells fo n (get_all_cells T) T = Inr T1"
    and c2: "calculate_cells fo n (get_all_cells (reloaded T)) (reloaded T) = Inr T2"
    and si: "sim T1 T2" and ag: "\<forall>k. agree T1 T2 k"
    and e1: "\<forall>k. expression (cell_at T1 k) = expression (cell_at T k)"
    and e2: "\<forall>k. expression (cell_at T2 k) = expression (cell_at (reloaded T) k)"
    and r1: "rows T1 = rows T \<and> columns T1 = columns T"
    by blast
  have l: "load_table_data fo n (get_table_data_for_export T) = Inr T2"
    using load_reloaded [OF w] c2 by (simp add: calculate_all_def)
  have d: "rows T2 = rows T \<and> columns T2 = columns T"
    using si r1 by (simp add: sim_def)
  have ex: "is_empty (cell_at T k) \<and> is_empty (cell_at T2 k)
            \<or> expression (cell_at T2 k) = expression (cell_at T k)" for k
    using e2 [rule_format, of k] cell_at_reloaded [OF w, of k]
    by (auto simp: expression_assign assigned_def is_empty_def Cell_def py_strip_def)
  have va: "cached_value (cell_at T2 k) = cached_value (cell_at T1 k)
            \<and> error (cell_at T2 k) = error (cell_at T1 k)" for k
    using ag [rule_format, of k] sim_cell [OF si, of k] by (simp add: agree_def cell_eqv_def)
  show ?thesis
    using c1 l d ex va export_cells [of T] by (simp add: calculate_all_def)
qed

theorem export_load_roundtrip_witness:
  "well_formed
     (\<lparr>rows = 3, columns = 3,
       cells =
         [((0, 0),
           \<lparr>expression = ''=B1+1'',
            ast = Some (BinaryOpNode ''+'' (CellRefNode \<lparr>column = ''B'', row = 1\<rparr>)
                          (NumberNode 1)),
            cached_value = Some (VInt 99), error = None, is_dirty = False\<rparr>),
          ((0, 1),
           \<lparr>expression = ''7'', ast = None, cached_value = None, error = None,
            is_dirty = False\<rparr>),
          ((1, 0),
           \<lparr>expression = ''  '', ast = None, cached_value = None, error = None,
            is_dirty = False\<rparr>),
          ((1, 1),
           \<lparr>expression = ''=1/0'',
            ast = Some (BinaryOpNode ''/'' (NumberNode 1) (NumberNode 0)),
            cached_value = None, error = None, is_dirty = True\<rparr>),
          ((2, 2),
           \<lparr>expression = ''=)'', ast = None, cached_value = None,
            error = Some ''Syntax error: Expected a number, a cell reference or (, found: )'',
            is_dirty = False\<rparr>)]\<rparr> :: unit table)
   \<and> settled
     (\<lparr>rows = 3, columns = 3,
       cells =
         [((0, 0),
           \<lparr>expression = ''=B1+1'',
            ast = Some (BinaryOpNode ''+'' (CellRefNode \<lparr>column = ''B'', row = 1\<rparr>)
                          (NumberNode 1)),
            cached_value = Some (VInt 99), error = None, is_dirty = False\<rparr>),
          ((0, 1),
           \<lparr>expression = ''7'', ast = None, cached_value = None, error = None,
            is_dirty = False\<rparr>),
          ((1, 0),
           \<lparr>expression = ''  '', ast = None, cached_value = None, error = None,
            is_dirty = False\<rparr>),
          ((1, 1),
           \<lparr>expression = ''=1/0'',
            ast = Some (BinaryOpNode ''/'' (NumberNode 1) (NumberNode 0)),
            cached_value = None, error = None, is_dirty = True\<rparr>),
          ((2, 2),
           \<lparr>expression = ''=)'', ast = None, cached_value = None,
            error = Some ''Syntax error: Expected a number, a cell reference or (, found: )'',
            is_dirty = False\<rparr>)]\<rparr> :: unit table)
   \<and> (\<exists>T_orig T_load.
         calculate_all unit_ops 5
           \<lparr>rows = 3, columns = 3,
            cells =
              [((0, 0),
                \<lparr>expression = ''=B1+1'',
                 ast = Some (BinaryOpNode ''+'' (CellRefNode \<lparr>column = ''B'', row = 1\<rparr>)
                               (NumberNode 1)),
                 cached_value = Some (VInt 99), error = None, is_dirty = False\<rparr>),
               ((0, 1),
                \<lparr>expression = ''7'', ast = None, cached_value = None, error = None,
                 is_dirty = False\<rparr>),
               ((1, 0),
                \<lparr>expression = ''  '', ast = None, cached_value = None, error = None,
                 is_dirty = False\<rparr>),
               ((1, 1),
                \<lparr>expression = ''=1/0'',
                 ast = Some (BinaryOpNode ''/'' (NumberNode 1) (NumberNode 0)),
                 cached_value = None, error = None, is_dirty = True\<rparr>),
               ((2, 2),
                \<lparr>expression = ''=)'', ast = None, cached_value = None,
                 error = Some ''Syntax error: Expected a number, a cell reference or (, found: )'',
                 is_dirty = False\<rparr>)]\<rparr> = Inr T_orig
         \<and> load_table_data unit_ops 5
             (get_table_data_for_export
                (\<lparr>rows = 3, columns = 3,
                  cells =
                    [((0, 0),
                      \<lparr>expression = ''=B1+1'',
                       ast = Some (BinaryOpNode ''+'' (CellRefNode \<lparr>column = ''B'', row = 1\<rparr>)
                                     (NumberNode 1)),
                       cached_value = Some (VInt 99), error = None, is_dirty = False\<rparr>),
                     ((0, 1),
                      \<lparr>expression = ''7'', ast = None, cached_value = None, error = None,
                       is_dirty = False\<rparr>),
                     ((1, 0),
                      \<lparr>expression = ''  '', ast = None, cached_value = None, error = None,
                       is_dirty = False\<rparr>),
                     ((1, 1),
                      \<lparr>expression = ''=1/0'',
                       ast = Some (BinaryOpNode ''/'' (NumberNode 1) (NumberNode 0)),
                       cached_value = None, error = None, is_dirty = True\<rparr>),
                     ((2, 2),
                      \<lparr>expression = ''=)'', ast = None, cached_value = None,
                       error = Some ''Syntax error: Expected a number, a cell reference or (, found: )'',
                       is_dirty = False\<rparr>)]\<rparr> :: unit table)) = Inr T_load
         \<and> (\<forall>k. cached_value (cell_at T_load k) = cached_value (cell_at T_orig k)
                 \<and> error (cell_at T_load k) = error (cell_at T_orig k)))"
proof -
  let ?T = "\<lparr>rows = 3, columns = 3,
       cells =
         [((0, 0),
           \<lparr>expression = ''=B1+1'',
            ast = Some (BinaryOpNode ''+'' (CellRefNode \<lparr>column = ''B'', row = 1\<rparr>)
                          (NumberNode 1)),
            cached_value = Some (VInt 99), error = None, is_dirty = False\<rparr>),
          ((0, 1),
           \<lparr>expression = ''7'', ast = None, cached_value = None, error = None,
            is_dirty = False\<rparr>),
          ((1, 0),
           \<lparr>expression = ''  '', ast = None, cached_value = None, error = None,
            is_dirty = False\<rparr>),
          ((1, 1),
           \<lparr>expression = ''=1/0'',
            ast = Some (BinaryOpNode ''/'' (NumberNode 1) (NumberNode 0)),
            cached_value = None, error = None, is_dirty = True\<rparr>),
          ((2, 2),
           \<lparr>expression = ''=)'', ast = None, cached_value = None,
            error = Some ''Syntax error: Expected a number, a cell reference or (, found: )'',
            is_dirty = False\<rparr>)]\<rparr> :: unit table"
  have w: "well_formed ?T" by code_simp
  have s: "settled ?T" by code_simp
  from export_load_roundtrip [OF w s, of unit_ops 5]
  obtain T_orig T_load where "calculate_all unit_ops 5 ?T = Inr T_orig"
    and "load_table_data unit_ops 5 (get_table_data_for_export ?T) = Inr T_load"
    and "\<forall>k. cached_value (cell_at T_load k) = cached_value (cell_at T_orig k)
             \<and> error (cell_at T_load k) = error (cell_at T_orig k)"
    by blast
  with w s show ?thesis by blast
qed

section \<open>Direct self-reference\<close>

lemma keys_map_entry: "map fst (AList.map_entry k f xs) = map fst xs"
  by (induction xs) auto

lemma well_formed_modify_cell: "well_formed T \<Longrightarrow> well_formed (modify_cell k f T)"
  by (simp add: well_formed_def modify_cell_def keys_map_entry in_bounds_def)

lemma well_formed_touch: "well_formed T \<Longrightarrow> in_bounds T k \<Longrightarrow> well_formed (touch k T)"
  by (auto simp: well_formed_def touch_def in_bounds_def map_of_eq_None_iff
           split: option.splits)

lemma evaluate_self_reference:
  "evaluate fo n (CellRefNode \<lparr>column = ''A'', row = 1\<rparr>) (Some \<lparr>column = ''A'', row = 1\<rparr>) T
     = (Inl (CircularReferenceError ''Circular reference detected for cell A1''), T)"
  by (cases n) (simp_all add: evaluate_def visit_cell_ref_def references_A1_B1_B2)

definition self_referring :: "'f cell \<Rightarrow> bool" where
  "self_referring c =
     (expression c = ''=A1'' \<and> ast c = Some (CellRefNode \<lparr>column = ''A'', row = 1\<rparr>))"

definition marked_circular :: "'f cell \<Rightarrow> bool" where
  "marked_circular c =
     (error c = Some ''Circular reference: Circular reference detected for cell A1''
      \<and> cached_value c = None)"

lemma outcome_self_referring:
  assumes "self_referring (cell_at T (0, 0))"
  shows "self_referring (outcome fo n 0 0 T) \<and> marked_circular (outcome fo n 0 0 T)"
  using assms
  by (simp add: outcome_def self_referring_def marked_circular_def is_empty_def texts_stripped
        references_A1_B1_B2 evaluate_self_reference failed_def stored_message_def
        set_cached_value_def set_error_def)

lemma self_referring_pending: "self_referring (cell_at T (0, 0)) \<Longrightarrow> pending T (0, 0)"
  by (simp add: self_referring_def pending_def is_formula_def texts_stripped)

lemma pass_marks_self_reference:
  assumes "\<forall>x \<in> set xs. in_bounds T (key x)"
    and "self_referring (cell_at T (0, 0))"
  shows "\<exists>T'. calculate_cells fo n xs T = Inr T'
              \<and> self_referring (cell_at T' (0, 0))
              \<and> ((0, 0) \<in> key ` set xs \<or> marked_circular (cell_at T (0, 0))
                    \<longrightarrow> marked_circular (cell_at T' (0, 0)))"
  using assms
proof (induction xs arbitrary: T)
  case Nil
  then show ?case by simp
next
  case (Cons x xs)
  obtain r c s where x: "x = (r, c, s)" by (cases x)
  have b: "in_bounds T (r, c)" using Cons.prems(1) x by (simp add: key_simp)
  have bs: "\<forall>x \<in> set xs. in_bounds T (key x)" using Cons.prems(1) by simp
  show ?case
  proof (cases "pending T (r, c)")
    case False
    then have ne: "(r, c) \<noteq> (0, 0)" using self_referring_pending [OF Cons.prems(2)] by auto
    from Cons.IH [OF bs Cons.prems(2)]
    show ?thesis using False ne by (auto simp: x loop_test key_simp)
  next
    case True
    obtain T' where c: "calculate_cell fo n r c T = Inr T'"
      and d: "rows T' = rows T" "columns T' = columns T"
      and o: "\<forall>k. k \<noteq> (r, c) \<longrightarrow> cell_at T' k = cell_at T k"
      and h: "cell_at T' (r, c) = outcome fo n r c T"
      using calculate_cell_effect [OF b, of fo n] by blast
    have bs': "\<forall>x \<in> set xs. in_bounds T' (key x)" using bs d by (simp add: in_bounds_def)
    show ?thesis
    proof (cases "(r, c) = (0, 0)")
      case True
      then have s': "self_referring (cell_at T' (0, 0))" and m': "marked_circular (cell_at T' (0, 0))"
        using h outcome_self_referring [OF Cons.prems(2), of fo n] by simp_all
      from Cons.IH [OF bs' s'] m'
      show ?thesis using \<open>pending T (r, c)\<close> c by (auto simp: x loop_test)
    next
      case False
      then have e: "cell_at T' (0, 0) = cell_at T (0, 0)" using o by auto
      then have s': "self_referring (cell_at T' (0, 0))" using Cons.prems(2) by simp
      from Cons.IH [OF bs' s']
      show ?thesis using \<open>pending T (r, c)\<close> c e False by (auto simp: x loop_test key_simp)
    qed
  qed
qed

lemma set_self_reference:
  assumes w: "well_formed T"
  shows "\<exists>T1. set_cell_expression 0 0 ''=A1'' T = Inr ((True, []), T1)
              \<and> well_formed T1 \<and> self_referring (cell_at T1 (0, 0))
              \<and> cached_value (cell_at T1 (0, 0))
                  = (if expression (cell_at T (0, 0)) = ''=A1''
                     then cached_value (cell_at T (0, 0)) else None)
              \<and> error (cell_at T1 (0, 0)) = None"
proof -
  let ?k = "(0, 0) :: int \<times> int"
  let ?c0 = "cell_at T ?k"
  let ?cell = "set_expression ''=A1'' ?c0"
  let ?new = "set_error None (set_ast (Some (CellRefNode \<lparr>column = ''A'', row = 1\<rparr>)) ?cell)"
  have b: "in_bounds T ?k" using w by (simp add: well_formed_def in_bounds_def)
  have g: "get_cell T 0 0 = Inr (?c0, touch ?k T)" using b by (rule get_cell_in_bounds)
  have e: "expression ?cell = ''=A1''" by (rule expression_set_expression)
  have s: "set_cell_expression 0 0 ''=A1'' T
             = Inr ((True, []), modify_cell ?k (\<lambda>x. ?new) (touch ?k T))"
    by (simp add: set_cell_expression_def g Let_def is_empty_def is_literal_def is_formula_def
          get_formula_expression_def e texts_stripped texts_parsed)
  have wf: "well_formed (modify_cell ?k (\<lambda>x. ?new) (touch ?k T))"
    using w b by (simp add: well_formed_modify_cell well_formed_touch)
  have at: "cell_at (modify_cell ?k (\<lambda>x. ?new) (touch ?k T)) ?k = ?new"
    using cell_at_modify_cell
            [where T = "touch ?k T" and k = ?k and c = ?c0 and f = "\<lambda>x. ?new" and k' = ?k,
             OF map_of_touch]
    by simp
  have "self_referring ?new"
    using e by (simp add: self_referring_def set_error_def set_ast_def)
  moreover have "cached_value ?new
                  = (if expression ?c0 = ''=A1'' then cached_value ?c0 else None)"
    by (simp add: set_error_def set_ast_def set_expression_def invalidate_def)
  moreover have "error ?new = None" by (simp add: set_error_def)
  ultimately show ?thesis using s wf at by simp
qed

text \<open>
  Claim C5: \<open>evaluate\<close>, seeded with the cell's own reference, raises
  \<open>CircularReferenceError\<close> on the reference to A1 at once, whatever the table and the
  recursion bound. In every well-formed table, setting A1 to \<open>=A1\<close> succeeds, the
  evaluation pass that follows succeeds, and after it A1 holds the circular-reference error
  and no cached value.
\<close>

theorem self_reference_is_circular:
  assumes w: "well_formed T"
  shows "evaluate fo n (CellRefNode \<lparr>column = ''A'', row = 1\<rparr>)
           (Some \<lparr>column = ''A'', row = 1\<rparr>) U
           = (Inl (CircularReferenceError ''Circular reference detected for cell A1''), U)
       \<and> (\<exists>T1 T2. set_cell_expression 0 0 ''=A1'' T = Inr ((True, []), T1)
           \<and> calculate_all fo n T1 = Inr T2
           \<and> expression (cell_at T2 (0, 0)) = ''=A1''
           \<and> error (cell_at T2 (0, 0))
               = Some ''Circular reference: Circular reference detected for cell A1''
           \<and> cached_value (cell_at T2 (0, 0)) = None)"
proof -
  obtain T1 where s: "set_cell_expression 0 0 ''=A1'' T = Inr ((True, []), T1)"
    and w1: "well_formed T1" and r1: "self_referring (cell_at T1 (0, 0))"
    using set_self_reference [OF w] by blast
  have ne: "\<not> is_empty (cell_at T1 (0, 0))"
    using r1 by (simp add: self_referring_def is_empty_def texts_stripped)
  obtain cell where m: "map_of (cells T1) (0, 0) = Some cell" and c: "cell = cell_at T1 (0, 0)"
    using ne by (cases "map_of (cells T1) (0, 0)") (auto simp: cell_at_def blank_empty)
  have "((0, 0), cell) \<in> set (filter (\<lambda>((r, c), cell). \<not> is_empty cell) (cells T1))"
    using m ne c by (auto dest: map_of_SomeD)
  then have "(\<lambda>((r, c), cell). (r, c, cell)) ((0, 0), cell) \<in> set (get_all_cells T1)"
    unfolding get_all_cells_def set_map by (rule imageI)
  then have "key (0, 0, cell) \<in> key ` set (get_all_cells T1)" by simp
  then have k: "(0, 0) \<in> key ` set (get_all_cells T1)" by (simp add: key_simp)
  from pass_marks_self_reference [OF all_cells_in_bounds [OF w1] r1, of fo n] k
  obtain T2 where "calculate_cells fo n (get_all_cells T1) T1 = Inr T2"
    and "self_referring (cell_at T2 (0, 0))" and "marked_circular (cell_at T2 (0, 0))"
    by blast
  then show ?thesis
    using s evaluate_self_reference [of fo n U]
    by (auto simp: calculate_all_def self_referring_def marked_circular_def)
qed

theorem self_reference_is_circular_witness:
  "well_formed
     (\<lparr>rows = 10, columns = 10,
       cells =
         [((0, 1),
           \<lparr>expression = ''=A1+1'',
            ast = Some (BinaryOpNode ''+'' (CellRefNode \<lparr>column = ''A'', row = 1\<rparr>)
                          (NumberNode 1)),
            cached_value = Some (VInt 8), error = None, is_dirty = False\<rparr>),
          ((0, 0),
           \<lparr>expression = ''7'', ast = None, cached_value = None, error = None,
            is_dirty = False\<rparr>)]\<rparr> :: unit table)
   \<and> (\<exists>T1 T2.
         set_cell_expression 0 0 ''=A1''
           (\<lparr>rows = 10, columns = 10,
             cells =
               [((0, 1),
                 \<lparr>expression = ''=A1+1'',
                  ast = Some (BinaryOpNode ''+'' (CellRefNode \<lparr>column = ''A'', row = 1\<rparr>)
                                (NumberNode 1)),
                  cached_value = Some (VInt 8), error = None, is_dirty = False\<rparr>),
                ((0, 0),
                 \<lparr>expression = ''7'', ast = None, cached_value = None, error = None,
                  is_dirty = False\<rparr>)]\<rparr> :: unit table)
           = Inr ((True, []), T1)
         \<and> calculate_all unit_ops 3 T1 = Inr T2
         \<and> error (cell_at T2 (0, 0))
             = Some ''Circular reference: Circular reference detected for cell A1''
         \<and> cached_value (cell_at T2 (0, 0)) = None)"
proof -
  let ?T = "\<lparr>rows = 10, columns = 10,
       cells =
         [((0, 1),
           \<lparr>expression = ''=A1+1'',
            ast = Some (BinaryOpNode ''+'' (CellRefNode \<lparr>column = ''A'', row = 1\<rparr>)
                          (NumberNode 1)),
            cached_value = Some (VInt 8), error = None, is_dirty = False\<rparr>),
          ((0, 0),
           \<lparr>expression = ''7'', ast = None, cached_value = None, error = None,
            is_dirty = False\<rparr>)]\<rparr> :: unit table"
  have w: "well_formed ?T" by code_simp
  from self_reference_is_circular [OF w, of unit_ops 3]
  obtain T1 T2 where "set_cell_expression 0 0 ''=A1'' ?T = Inr ((True, []), T1)"
    and "calculate_all unit_ops 3 T1 = Inr T2"
    and "error (cell_at T2 (0, 0))
           = Some ''Circular reference: Circular reference detected for cell A1''"
    and "cached_value (cell_at T2 (0, 0)) = None"
    by blast
  with w show ?thesis by blast
qed

end
